theory Spec2Isabelle
  imports Complex_Main "HOL-Library.Log_Nat"
begin

section \<open>Python numbers\<close>

text \<open>
  The recorder computes two integers through Python floats: the timer interval
  \<^verbatim>\<open>int(1000 / max(1, fps))\<close> and the scaled frame size \<^verbatim>\<open>int(arr.shape[1] * scale)\<close>.
  A Python float is an IEEE-754 binary64 number. It is modelled by its exact value, a
  rational, and every float operation is the exact operation followed by rounding to
  the nearest number with a 53-bit significand, ties to the even significand
  (\<open>fl\<close>). Overflow and subnormal numbers are outside the model; the values of this
  program lie between \<open>2 powi -54\<close> and \<open>2 ^ 84\<close>.
\<close>

datatype exn = RuntimeError | ZeroDivisionError | AttributeError | CvError

definition ilog2 :: "rat \<Rightarrow> int" where
  \<comment> \<open>the binary exponent of a positive number: \<open>2 powi e \<le> x < 2 powi (e + 1)\<close>\<close>
  "ilog2 x = (if 1 \<le> x then bitlen \<lfloor>x\<rfloor> - 1 else - bitlen (\<lceil>1 / x\<rceil> - 1))"

definition rne :: "rat \<Rightarrow> int" where
  \<comment> \<open>round to the nearest integer, a tie to the even one\<close>
  "rne y = (let f = \<lfloor>y\<rfloor>; d = y - of_int f in
     if d < 1 / 2 then f else if 1 / 2 < d then f + 1 else if even f then f else f + 1)"

definition ulp :: "rat \<Rightarrow> rat" where
  "ulp x = 2 powi (ilog2 \<bar>x\<bar> - 52)"

definition fl :: "rat \<Rightarrow> rat" where
  "fl x = (if x = 0 then 0 else of_int (rne (x / ulp x)) * ulp x)"

definition py_truediv :: "int \<Rightarrow> int \<Rightarrow> exn + rat" where
  \<comment> \<open>\<^verbatim>\<open>a / b\<close> on two ints: the exact quotient, correctly rounded\<close>
  "py_truediv a b = (if b = 0 then Inl ZeroDivisionError else Inr (fl (of_int a / of_int b)))"

definition py_mul_int_float :: "int \<Rightarrow> rat \<Rightarrow> rat" where
  \<comment> \<open>\<^verbatim>\<open>n * x\<close> with \<open>n\<close> an int and \<open>x\<close> a float: \<open>n\<close> is converted to a float first\<close>
  "py_mul_int_float n x = fl (fl (of_int n) * x)"

definition py_int :: "rat \<Rightarrow> int" where
  \<comment> \<open>\<^verbatim>\<open>int(x)\<close> truncates towards zero\<close>
  "py_int x = (if 0 \<le> x then \<lfloor>x\<rfloor> else \<lceil>x\<rceil>)"

section \<open>The library objects the recorder handles\<close>

text \<open>
  Qt and OpenCV are outside the repository. Their objects are modelled by the
  attributes the recorder reads (sizes, channel count) and their pixel contents
  symbolically, as the chain of library calls that produced them. Two of the calls
  fail on degenerate images, and the model fails with them: a null image (no width or
  no height) has no \<^verbatim>\<open>bits()\<close>, so that \<^verbatim>\<open>ptr.setsize\<close> raises \<open>AttributeError\<close>, and
  \<^verbatim>\<open>cv2.resize\<close> raises \<^verbatim>\<open>cv2.error\<close> for an empty source or an empty target size.
\<close>

record pixmap =
  px_width :: int
  px_height :: int
  px_dpr :: rat
  px_shot :: nat

datatype interpolation = INTER_LINEAR | INTER_AREA

datatype pixels =
  Grabbed nat
  | Resampled interpolation int int pixels
  | Bgra2bgr pixels

record qimage =
  qi_width :: int
  qi_height :: int
  qi_bits :: pixels

record ndarray =
  rows :: int
  cols :: int
  chans :: int
  buf :: pixels

definition qimage_from_pixmap :: "pixmap \<Rightarrow> qimage" where
  "qimage_from_pixmap pix =
     \<lparr>qi_width = px_width pix, qi_height = px_height pix, qi_bits = Grabbed (px_shot pix)\<rparr>"

definition qimage_to_numpy :: "qimage \<Rightarrow> exn + ndarray" where
  \<comment> \<open>\<^verbatim>\<open>img.bits()\<close> is \<^verbatim>\<open>None\<close> for a null image, and \<^verbatim>\<open>ptr.setsize\<close> raises\<close>
  "qimage_to_numpy img =
     (let width = qi_width img; height = qi_height img
      in if width \<le> 0 \<or> height \<le> 0 then Inl AttributeError
         else Inr \<lparr>rows = height, cols = width, chans = 4, buf = qi_bits img\<rparr>)"

definition resampled :: "ndarray \<Rightarrow> int \<times> int \<Rightarrow> interpolation \<Rightarrow> ndarray" where
  \<comment> \<open>the array \<^verbatim>\<open>cv2.resize(arr, (w, h), interpolation=i)\<close> returns: \<open>h\<close> rows, \<open>w\<close> columns\<close>
  "resampled arr dsize i =
     arr\<lparr>rows := snd dsize, cols := fst dsize,
         buf := Resampled i (fst dsize) (snd dsize) (buf arr)\<rparr>"

definition cv2_resize :: "ndarray \<Rightarrow> int \<times> int \<Rightarrow> interpolation \<Rightarrow> exn + ndarray" where
  "cv2_resize arr dsize i =
     (if rows arr \<le> 0 \<or> cols arr \<le> 0 \<or> fst dsize \<le> 0 \<or> snd dsize \<le> 0 then Inl CvError
      else Inr (resampled arr dsize i))"

definition cv2_cvtColor_BGRA2BGR :: "ndarray \<Rightarrow> ndarray" where
  \<comment> \<open>called on non-empty four-channel arrays only\<close>
  "cv2_cvtColor_BGRA2BGR arr = arr\<lparr>chans := 3, buf := Bgra2bgr (buf arr)\<rparr>"

definition VideoWriter_fourcc :: "char \<Rightarrow> char \<Rightarrow> char \<Rightarrow> char \<Rightarrow> int" where
  "VideoWriter_fourcc c1 c2 c3 c4 =
     of_char c1 + 256 * of_char c2 + 65536 * of_char c3 + 16777216 * of_char c4"

record video_writer =
  vw_path :: string
  vw_fourcc :: int
  vw_fps :: int
  vw_size :: "int \<times> int"

text \<open>
  \<^verbatim>\<open>Path.suffix\<close> and \<^verbatim>\<open>str.lower\<close>, on the path string the save dialog returns
  (separator \<open>/\<close>, ASCII letters).
\<close>

definition rfind :: "string \<Rightarrow> char \<Rightarrow> int" where
  "rfind s c =
     (if c \<in> set s then int (length s) - 1 - int (length (takeWhile (\<lambda>x. x \<noteq> c) (rev s)))
      else - 1)"

definition path_name :: "string \<Rightarrow> string" where
  "path_name p = rev (takeWhile (\<lambda>x. x \<noteq> CHR ''/'') (rev p))"

definition suffix :: "string \<Rightarrow> string" where
  "suffix p =
     (let name = path_name p; i = rfind name CHR ''.''
      in if 0 < i \<and> i < int (length name) - 1 then drop (nat i) name else [])"

definition lower_char :: "char \<Rightarrow> char" where
  "lower_char c =
     (let n = (of_char c :: nat) in if 65 \<le> n \<and> n \<le> 90 then char_of (n + 32) else c)"

definition lower :: "string \<Rightarrow> string" where
  "lower s = map lower_char s"

section \<open>The recorder\<close>

datatype scale_choice = Original | Half | Third | Quarter

datatype aspect_mode = KeepAspectRatio | IgnoreAspectRatio

datatype preview_content = Waiting | Showing pixmap aspect_mode

record recorder =
  fps_box :: int
  scale_box :: scale_choice
  keep_ratio :: bool
  preview :: preview_content
  btn_start :: bool
  btn_stop :: bool
  timer :: "int option"
  recording :: bool
  screen :: bool
  last_frame_time :: rat
  writer :: "video_writer option"
  target_path :: "string option"
  target_size :: "(int \<times> int) option"

text \<open>
  What a handler does to the world outside the recorder object: the save dialog it
  shows, the encoders it constructs (with the answer of \<^verbatim>\<open>isOpened()\<close>), the frames it
  writes, the encoders it releases, and the teardown of the window.
\<close>

datatype io =
  Dialog
  | Constructed video_writer bool
  | Written video_writer ndarray
  | Released video_writer
  | Teardown

record outcome =
  raised :: "exn option"
  effects :: "io list"
  final :: recorder

definition init :: "bool \<Rightarrow> recorder" where
  \<comment> \<open>\<^verbatim>\<open>__init__\<close>; the argument says whether a primary screen exists\<close>
  "init has_screen =
     \<lparr>fps_box = 20, scale_box = Original, keep_ratio = True, preview = Waiting,
      btn_start = True, btn_stop = False, timer = None, recording = False,
      screen = has_screen, last_frame_time = 0, writer = None, target_path = None,
      target_size = None\<rparr>"

definition choose_target :: "string \<Rightarrow> string option" where
  \<comment> \<open>the argument is the path the dialog returns, empty when the user cancels\<close>
  "choose_target path = (if path \<noteq> [] then Some path else None)"

definition scale_factor :: "scale_choice \<Rightarrow> rat" where
  "scale_factor m =
     (case m of Original \<Rightarrow> 1 | Half \<Rightarrow> 1 / 2 | Third \<Rightarrow> fl (1 / 3) | Quarter \<Rightarrow> 1 / 4)"

definition init_writer ::
    "int \<Rightarrow> int \<Rightarrow> int \<Rightarrow> string \<Rightarrow> bool \<Rightarrow> io list \<times> (exn + video_writer)" where
  \<comment> \<open>the last argument is the answer of \<^verbatim>\<open>writer.isOpened()\<close>\<close>
  "init_writer frame_w frame_h fps out_path is_opened =
     (let fourcc =
            (if lower (suffix out_path) = ''.mp4''
             then VideoWriter_fourcc CHR ''m'' CHR ''p'' CHR ''4'' CHR ''v''
             else VideoWriter_fourcc CHR ''X'' CHR ''V'' CHR ''I'' CHR ''D'');
          w = \<lparr>vw_path = out_path, vw_fourcc = fourcc, vw_fps = fps,
               vw_size = (frame_w, frame_h)\<rparr>
      in if \<not> is_opened then ([Constructed w False], Inl RuntimeError)
         else ([Constructed w True], Inr w))"

definition start_recording :: "string \<Rightarrow> recorder \<Rightarrow> outcome" where
  \<comment> \<open>the first argument is the answer of the save dialog\<close>
  "start_recording answer st =
     (if recording st then \<lparr>raised = None, effects = [], final = st\<rparr>
      else
        let st1 = st\<lparr>target_path := choose_target answer\<rparr>
        in if target_path st1 = None then \<lparr>raised = None, effects = [Dialog], final = st1\<rparr>
           else
             let fps = fps_box st1
             in case py_truediv 1000 (max 1 fps) of
                  Inl e \<Rightarrow> \<lparr>raised = Some e, effects = [Dialog], final = st1\<rparr>
                | Inr q \<Rightarrow>
                    let interval_ms = py_int q
                    in \<lparr>raised = None, effects = [Dialog],
                        final = st1\<lparr>timer := Some interval_ms, btn_start := False,
                                    btn_stop := True, recording := True,
                                    last_frame_time := 0\<rparr>\<rparr>)"

definition cv2_release :: "bool \<Rightarrow> video_writer \<Rightarrow> exn + unit" where
  \<comment> \<open>the first argument says whether the library call raises\<close>
  "cv2_release fails w = (if fails then Inl CvError else Inr ())"

definition release_writer :: "bool \<Rightarrow> recorder \<Rightarrow> outcome" where
  "release_writer fails st =
     (case writer st of
        None \<Rightarrow> \<lparr>raised = None, effects = [], final = st\<rparr>
      | Some w \<Rightarrow>
          (case cv2_release fails w of
             Inl e \<Rightarrow> \<lparr>raised = None, effects = [Released w], final = st\<lparr>writer := None\<rparr>\<rparr>
           | Inr u \<Rightarrow> \<lparr>raised = None, effects = [Released w], final = st\<lparr>writer := None\<rparr>\<rparr>))"

definition stop_recording :: "bool \<Rightarrow> recorder \<Rightarrow> outcome" where
  "stop_recording fails st =
     (if \<not> recording st then \<lparr>raised = None, effects = [], final = st\<rparr>
      else
        let st1 = st\<lparr>timer := None, btn_start := True, btn_stop := False, recording := False\<rparr>;
            r = release_writer fails st1
        in case raised r of
             Some e \<Rightarrow> r
           | None \<Rightarrow> r\<lparr>final := (final r)\<lparr>target_path := None, target_size := None\<rparr>\<rparr>)"

definition closeEvent :: "bool \<Rightarrow> recorder \<Rightarrow> outcome" where
  "closeEvent fails st =
     (let r = stop_recording fails st
      in case raised r of
           Some e \<Rightarrow> r
         | None \<Rightarrow> r\<lparr>effects := effects r @ [Teardown]\<rparr>)"

definition frame_bgr_of :: "scale_choice \<Rightarrow> pixmap \<Rightarrow> exn + ndarray" where
  \<comment> \<open>lines 191 to 202 of \<^verbatim>\<open>_on_tick\<close>: the captured pixmap as the three-channel frame\<close>
  "frame_bgr_of m pix =
     (let img = qimage_from_pixmap pix
      in case qimage_to_numpy img of
           Inl e \<Rightarrow> Inl e
         | Inr arr \<Rightarrow>
             (let scale = scale_factor m;
                  scaled =
                    (if scale \<noteq> 1
                     then let new_w = py_int (py_mul_int_float (cols arr) scale);
                              new_h = py_int (py_mul_int_float (rows arr) scale)
                          in cv2_resize arr (new_w, new_h) INTER_AREA
                     else Inr arr)
              in (case scaled of
                    Inl e \<Rightarrow> Inl e
                  | Inr arr' \<Rightarrow> Inr (cv2_cvtColor_BGRA2BGR arr'))))"

definition on_tick :: "pixmap \<Rightarrow> bool \<Rightarrow> recorder \<Rightarrow> outcome" where
  \<comment> \<open>the arguments are the pixmap \<^verbatim>\<open>grabWindow\<close> returns and the answer of \<^verbatim>\<open>isOpened()\<close>\<close>
  "on_tick grabbed is_opened st =
     (if \<not> screen st then \<lparr>raised = None, effects = [], final = st\<rparr>
      else
        let pix = (if px_dpr grabbed \<noteq> 1 then grabbed\<lparr>px_dpr := 1\<rparr> else grabbed);
            st1 = st\<lparr>preview :=
                       (if keep_ratio st then Showing pix KeepAspectRatio
                        else Showing pix IgnoreAspectRatio)\<rparr>
        in if \<not> recording st1 then \<lparr>raised = None, effects = [], final = st1\<rparr>
           else
             (case frame_bgr_of (scale_box st1) pix of
                Inl e \<Rightarrow> \<lparr>raised = Some e, effects = [], final = st1\<rparr>
              | Inr frame_bgr \<Rightarrow>
                  (let opened =
                         (case writer st1 of
                            Some w \<Rightarrow> ([], Inr st1)
                          | None \<Rightarrow>
                              (let h = rows frame_bgr; w = cols frame_bgr; fps = fps_box st1
                               in (case target_path st1 of
                                     None \<Rightarrow> ([], Inl AttributeError)
                                   | Some p \<Rightarrow>
                                       (case init_writer w h fps p is_opened of
                                          (es, Inl e) \<Rightarrow> (es, Inl e)
                                        | (es, Inr wr) \<Rightarrow>
                                            (es, Inr (st1\<lparr>writer := Some wr,
                                                             target_size := Some (w, h)\<rparr>))))))
                   in (case opened of
                         (es, Inl e) \<Rightarrow> \<lparr>raised = Some e, effects = es, final = st1\<rparr>
                       | (es, Inr st2) \<Rightarrow>
                           (case writer st2 of
                              None \<Rightarrow> \<lparr>raised = Some AttributeError, effects = es, final = st2\<rparr>
                            | Some wr \<Rightarrow>
                                (if Some (cols frame_bgr, rows frame_bgr) \<noteq> target_size st2
                                 then (case target_size st2 of
                                         None \<Rightarrow>
                                           \<lparr>raised = Some CvError, effects = es, final = st2\<rparr>
                                       | Some sz \<Rightarrow>
                                           (case cv2_resize frame_bgr sz INTER_AREA of
                                              Inl e \<Rightarrow>
                                                \<lparr>raised = Some e, effects = es, final = st2\<rparr>
                                            | Inr resized \<Rightarrow>
                                                \<lparr>raised = None,
                                                 effects = es @ [Written wr resized],
                                                 final = st2\<rparr>))
                                 else \<lparr>raised = None, effects = es @ [Written wr frame_bgr],
                                       final = st2\<rparr>))))))"

text \<open>
  The events the Qt event loop delivers: the two buttons, the window close, the timer,
  and the user changing one of the three input widgets. The spin box keeps its value
  within the range \<^verbatim>\<open>setRange(1, 60)\<close>. An exception that leaves a handler ends the run.
\<close>

datatype event =
  Start string
  | Stop bool
  | Close bool
  | Tick pixmap bool
  | Set_fps int
  | Set_scale scale_choice
  | Set_keep_ratio bool

definition handle :: "event \<Rightarrow> recorder \<Rightarrow> outcome" where
  "handle ev st =
     (case ev of
        Start answer \<Rightarrow> start_recording answer st
      | Stop fails \<Rightarrow> stop_recording fails st
      | Close fails \<Rightarrow> closeEvent fails st
      | Tick pix is_opened \<Rightarrow> on_tick pix is_opened st
      | Set_fps v \<Rightarrow> \<lparr>raised = None, effects = [], final = st\<lparr>fps_box := max 1 (min 60 v)\<rparr>\<rparr>
      | Set_scale m \<Rightarrow> \<lparr>raised = None, effects = [], final = st\<lparr>scale_box := m\<rparr>\<rparr>
      | Set_keep_ratio b \<Rightarrow> \<lparr>raised = None, effects = [], final = st\<lparr>keep_ratio := b\<rparr>\<rparr>)"

fun run :: "event list \<Rightarrow> recorder \<Rightarrow> outcome" where
  "run [] st = \<lparr>raised = None, effects = [], final = st\<rparr>"
| "run (ev # evs) st =
     (let r = handle ev st
      in case raised r of
           Some e \<Rightarrow> r
         | None \<Rightarrow> (let r' = run evs (final r) in r'\<lparr>effects := effects r @ effects r'\<rparr>))"

fun in_session :: "event \<Rightarrow> bool" where
  "in_session (Stop fails) = False"
| "in_session (Close fails) = False"
| "in_session ev = True"

fun written :: "io list \<Rightarrow> (video_writer \<times> ndarray) list" where
  "written [] = []"
| "written (Written w f # es) = (w, f) # written es"
| "written (e # es) = written es"

fun constructed :: "io list \<Rightarrow> (video_writer \<times> bool) list" where
  "constructed [] = []"
| "constructed (Constructed w b # es) = (w, b) # constructed es"
| "constructed (e # es) = constructed es"

definition ratio :: "scale_choice \<Rightarrow> rat" where
  \<comment> \<open>the exact ratio an item of the scale box stands for\<close>
  "ratio m = (case m of Original \<Rightarrow> 1 | Half \<Rightarrow> 1 / 2 | Third \<Rightarrow> 1 / 3 | Quarter \<Rightarrow> 1 / 4)"

definition screenshot :: "nat \<Rightarrow> pixmap" where
  \<comment> \<open>the \<open>i\<close>-th grab of a 1920 by 1080 display\<close>
  "screenshot i = \<lparr>px_width = 1920, px_height = 1080, px_dpr = 1, px_shot = i\<rparr>"

definition geometry_fixed :: "int \<times> int \<Rightarrow> video_writer \<Rightarrow> recorder \<Rightarrow> bool" where
  \<comment> \<open>the session has the open writer \<open>w\<close>, of the non-empty geometry \<open>g\<close>\<close>
  "geometry_fixed g w st =
     (recording st \<and> target_size st = Some g \<and> writer st = Some w \<and> vw_size w = g \<and>
      1 \<le> fst g \<and> 1 \<le> snd g)"

definition fit_to :: "int \<times> int \<Rightarrow> ndarray \<Rightarrow> ndarray" where
  \<comment> \<open>the frame lines 212 and 213 of \<^verbatim>\<open>_on_tick\<close> hand on when the target size is \<open>g\<close>\<close>
  "fit_to g c = (if (cols c, rows c) \<noteq> g then resampled c g INTER_AREA else c)"

text \<open>
  The frames a session is expected to write once its writer \<open>w\<close> of geometry \<open>g\<close> is
  open, as the specification words it: every tick's converted frame, resized to \<open>g\<close>
  when its size differs, in the order of the ticks; the scale is the one selected at
  the time of the tick, and a tick whose conversion raises ends the session's writes.
\<close>

fun session_writes ::
    "int \<times> int \<Rightarrow> video_writer \<Rightarrow> scale_choice \<Rightarrow> event list \<Rightarrow> (video_writer \<times> ndarray) list"
  where
  "session_writes g w m [] = []"
| "session_writes g w m (Tick pix b # evs) =
     (case frame_bgr_of m pix of
        Inl e \<Rightarrow> []
      | Inr c \<Rightarrow> (w, fit_to g c) # session_writes g w m evs)"
| "session_writes g w m (Set_scale m' # evs) = session_writes g w m' evs"
| "session_writes g w m (ev # evs) = session_writes g w m evs"

section \<open>Rounding\<close>

text \<open>
  The facts about \<open>fl\<close> the two computations need: the rounding error is at most
  half a unit in the last place, numbers with a significand of at most 53 bits are not
  rounded at all, and a number just below an integer \<open>k\<close>, by \<open>k / 2 ^ 54\<close>, rounds to
  \<open>k\<close> (through a tie when \<open>k\<close> is a power of two).
\<close>

lemma ilog2_bounds:
  assumes "0 < x"
  shows "2 powi (ilog2 x) \<le> x \<and> x < 2 powi (ilog2 x + 1)"
proof (cases "1 \<le> x")
  case True
  define n where "n = \<lfloor>x\<rfloor>"
  have n: "1 \<le> n" "of_int n \<le> x" "x < of_int n + 1"
    unfolding n_def using True by linarith+
  then have pos: "0 < n" by simp
  have b1: "1 \<le> bitlen n" using pos by (simp add: bitlen_alt_def)
  from bitlen_bounds [OF pos]
  have lo: "2 ^ nat (bitlen n - 1) \<le> n" and hi: "n < 2 ^ nat (bitlen n)" by simp_all
  have e: "ilog2 x = bitlen n - 1" using True by (simp add: ilog2_def n_def)
  have "(2::rat) powi (bitlen n - 1) = of_int (2 ^ nat (bitlen n - 1))"
    using b1 by (simp add: power_int_nonneg_exp)
  also have "\<dots> \<le> of_int n" using lo by (simp only: of_int_le_iff)
  finally have A: "2 powi (ilog2 x) \<le> x" using n(2) e by simp
  have "n + 1 \<le> 2 ^ nat (bitlen n)" using hi by simp
  then have "(of_int (n + 1) :: rat) \<le> of_int (2 ^ nat (bitlen n))"
    by (simp only: of_int_le_iff)
  moreover have "(2::rat) powi (bitlen n) = of_int (2 ^ nat (bitlen n))"
    using b1 by (simp add: power_int_nonneg_exp)
  ultimately have B: "x < 2 powi (ilog2 x + 1)" using n(3) e by simp
  from A B show ?thesis ..
next
  case False
  define y where "y = 1 / x"
  define m where "m = \<lceil>y\<rceil> - 1"
  have y: "1 < y" using False assms by (simp add: y_def)
  have m: "of_int m < y" "y \<le> of_int m + 1"
    unfolding m_def by linarith+
  have "1 < \<lceil>y\<rceil>" using y by linarith
  then have pos: "0 < m" by (simp add: m_def)
  have b1: "1 \<le> bitlen m" using pos by (simp add: bitlen_alt_def)
  from bitlen_bounds [OF pos]
  have lo: "2 ^ nat (bitlen m - 1) \<le> m" and hi: "m < 2 ^ nat (bitlen m)" by simp_all
  have e: "ilog2 x = - bitlen m" using False by (simp add: ilog2_def m_def y_def)
  have "m + 1 \<le> 2 ^ nat (bitlen m)" using hi by simp
  then have "(of_int (m + 1) :: rat) \<le> of_int (2 ^ nat (bitlen m))"
    by (simp only: of_int_le_iff)
  then have "y \<le> 2 ^ nat (bitlen m)" using m(2) by simp
  then have "1 / x \<le> 2 ^ nat (bitlen m)" by (simp add: y_def)
  then have "1 / 2 ^ nat (bitlen m) \<le> x"
    using assms by (simp add: field_simps)
  moreover have "(2::rat) powi (- bitlen m) = 1 / 2 ^ nat (bitlen m)"
    using b1 by (simp add: power_int_minus_divide power_int_nonneg_exp)
  ultimately have A: "2 powi (ilog2 x) \<le> x" using e by simp
  have "(of_int (2 ^ nat (bitlen m - 1)) :: rat) \<le> of_int m"
    using lo by (simp only: of_int_le_iff)
  then have "(2::rat) ^ nat (bitlen m - 1) \<le> of_int m" by simp
  then have "2 ^ nat (bitlen m - 1) < y" using m(1) by linarith
  then have "2 ^ nat (bitlen m - 1) < 1 / x" by (simp add: y_def)
  then have "x < 1 / 2 ^ nat (bitlen m - 1)"
    using assms by (simp add: field_simps)
  moreover have "(2::rat) powi (- bitlen m + 1) = 1 / 2 ^ nat (bitlen m - 1)"
  proof -
    have "- bitlen m + 1 = - (bitlen m - 1)" by simp
    then show ?thesis using b1 by (simp only: power_int_minus_divide) (simp add: power_int_nonneg_exp)
  qed
  ultimately have B: "x < 2 powi (ilog2 x + 1)" using e by simp
  from A B show ?thesis ..
qed

lemma rne_of_int [simp]: "rne (of_int z) = z"
  by (simp add: rne_def)

lemma rne_error: "\<bar>of_int (rne y) - y\<bar> \<le> 1 / 2"
proof -
  have "of_int \<lfloor>y\<rfloor> \<le> y" "y < of_int \<lfloor>y\<rfloor> + 1" by linarith+
  then show ?thesis by (auto simp add: rne_def Let_def)
qed

lemma ulp_pos: "0 < ulp x"
  by (simp add: ulp_def)

lemma fl_error:
  assumes "0 < x"
  shows "\<bar>fl x - x\<bar> \<le> x / 2 ^ 53"
proof -
  have u: "0 < ulp x" by (rule ulp_pos)
  have "fl x - x = (of_int (rne (x / ulp x)) - x / ulp x) * ulp x"
    using assms u by (simp add: fl_def field_simps)
  then have "\<bar>fl x - x\<bar> = \<bar>of_int (rne (x / ulp x)) - x / ulp x\<bar> * ulp x"
    using u by (simp add: abs_mult)
  also have "\<dots> \<le> 1 / 2 * ulp x"
    using rne_error [of "x / ulp x"] u by (intro mult_right_mono) simp_all
  also have "ulp x = 2 powi (ilog2 x) / 2 ^ 52"
    using assms by (simp add: ulp_def power_int_diff)
  also have "1 / 2 * (2 powi (ilog2 x) / 2 ^ 52) \<le> 1 / 2 * (x / 2 ^ 52)"
    using ilog2_bounds [OF assms] by (simp add: divide_right_mono)
  finally show ?thesis by simp
qed

lemma powi_less_cancel:
  assumes "(2::rat) powi a < 2 powi b"
  shows "a < b"
proof (rule ccontr)
  assume "\<not> a < b"
  then have "b \<le> a" by simp
  then have "(2::rat) powi b \<le> 2 powi a" by (intro power_int_increasing) simp_all
  with assms show False by simp
qed

lemma fl_dyadic:
  assumes "0 < n" "n < 2 ^ 53"
  shows "fl (of_int n / 2 ^ k) = of_int n / 2 ^ k"
proof -
  define x :: rat where "x = of_int n / 2 ^ k"
  have x: "0 < x" using assms(1) by (simp add: x_def)
  define e where "e = ilog2 x"
  have "2 powi e \<le> x" using ilog2_bounds [OF x] by (simp add: e_def)
  also have "x < 2 ^ 53 / 2 ^ k"
  proof -
    have "(of_int n :: rat) < of_int (2 ^ 53)" using assms(2) by (simp only: of_int_less_iff)
    then show ?thesis by (simp add: x_def divide_strict_right_mono)
  qed
  also have "(2::rat) ^ 53 / 2 ^ k = 2 powi (53 - int k)"
    by (simp add: power_int_diff)
  finally have "e < 53 - int k" by (rule powi_less_cancel)
  then have s: "0 \<le> 52 - e - int k" by simp
  have u: "ulp x = 2 powi (e - 52)" using x by (simp add: ulp_def e_def)
  have "52 - e = - (e - 52)" by simp
  then have "x / ulp x = x * 2 powi (52 - e)"
    by (simp only: u power_int_minus divide_inverse)
  also have "\<dots> = of_int n * (2 powi (52 - e) / 2 powi (int k))"
    by (simp add: x_def)
  also have "2 powi (52 - e) / 2 powi (int k) = (2::rat) powi (52 - e - int k)"
    by (simp add: power_int_diff)
  also have "\<dots> = 2 ^ nat (52 - e - int k)" using s by (simp add: power_int_nonneg_exp)
  finally have "x / ulp x = of_int (n * 2 ^ nat (52 - e - int k))" by simp
  then have "rat_of_int (rne (x / ulp x)) = x / ulp x" by (simp only: rne_of_int)
  then have "fl x = x" using x ulp_pos [of x] by (simp add: fl_def)
  then show ?thesis by (simp add: x_def)
qed

lemma fl_of_int:
  assumes "0 \<le> n" "n < 2 ^ 53"
  shows "fl (of_int n) = of_int n"
proof (cases "n = 0")
  case True
  then show ?thesis by (simp add: fl_def)
next
  case False
  with assms(1) have "0 < n" by simp
  from fl_dyadic [OF this assms(2), of 0] show ?thesis by simp
qed

lemma interval_exact:
  assumes "1 \<le> b"
  shows "py_int (fl (1000 / of_int b)) = 1000 div b"
proof -
  define q r where "q = 1000 div b" and "r = 1000 mod b"
  define x :: rat where "x = 1000 / of_int b"
  have b: "(0::rat) < of_int b" using assms by simp
  have qr: "1000 = b * q + r" "0 \<le> r" "r < b" "0 \<le> q"
    using assms by (simp_all add: q_def r_def pos_imp_zdiv_nonneg_iff)
  have "q * 1 \<le> q * b" using assms qr(4) by (intro mult_left_mono) simp_all
  then have "q \<le> 1000" using qr(1,2) by (simp add: mult.commute)
  note qr = qr this
  have "(1000::rat) = of_int (b * q + r)" using qr(1) by simp
  then have x_eq: "x = of_int q + of_int r / of_int b"
    using b by (simp add: x_def field_simps)
  have x: "0 < x" using b by (simp add: x_def)
  have "of_int q \<le> fl x \<and> fl x < of_int q + 1"
  proof (cases "r = 0")
    case True
    then have xq: "x = of_int q" using x_eq by simp
    have "q < 2 ^ 53" using qr(5) by simp
    from fl_of_int [OF qr(4) this] xq show ?thesis by simp
  next
    case False
    have "\<bar>fl x - x\<bar> \<le> x / 2 ^ 53" by (rule fl_error [OF x])
    also have "x / 2 ^ 53 < (1::rat) / of_int b"
      using b by (simp add: x_def field_simps)
    finally have err: "\<bar>fl x - x\<bar> < (1::rat) / of_int b" .
    have "1 \<le> r" using False qr(2) by simp
    then have "(1::rat) \<le> of_int r" by simp
    then have lo: "(1::rat) / of_int b \<le> of_int r / of_int b"
      using b by (intro divide_right_mono) simp_all
    have "r + 1 \<le> b" using qr(3) by simp
    then have "(of_int (r + 1) :: rat) \<le> of_int b" by (simp only: of_int_le_iff)
    then have "(of_int r + 1) / of_int b \<le> (1::rat)" using b by simp
    then have hi: "of_int r / of_int b + (1::rat) / of_int b \<le> 1"
      by (simp add: add_divide_distrib)
    from err lo hi x_eq show ?thesis by (auto simp add: abs_less_iff)
  qed
  then have "\<lfloor>fl x\<rfloor> = q" by (intro floor_unique) simp_all
  moreover have "0 \<le> fl x" using \<open>of_int q \<le> fl x \<and> fl x < of_int q + 1\<close> qr(4)
    by (meson of_int_0_le_iff order_trans)
  ultimately show ?thesis by (simp add: py_int_def x_def q_def)
qed

lemma rne_near:
  assumes "of_int N - 1 / 2 \<le> y" "y < of_int N + 1 / 2" "even N"
  shows "rne y = N"
proof (cases "of_int N \<le> y")
  case True
  with assms(2) have "\<lfloor>y\<rfloor> = N" by (intro floor_unique) simp_all
  with assms(2) show ?thesis by (simp add: rne_def Let_def)
next
  case False
  with assms(1) have f: "\<lfloor>y\<rfloor> = N - 1" by (intro floor_unique) simp_all
  have "odd (N - 1)" using assms(3) by simp
  with assms(1) False f show ?thesis by (auto simp add: rne_def Let_def)
qed

lemma third_const: "fl (1 / 3) = 6004799503160661 / 2 ^ 54"
  by code_simp

lemma py_int_half:
  assumes "0 \<le> W" "W < 2 ^ 53"
  shows "py_int (py_mul_int_float W (1 / 2 ^ k)) = W div 2 ^ k"
proof (cases "W = 0")
  case True
  then show ?thesis by (simp add: py_mul_int_float_def fl_def py_int_def)
next
  case False
  with assms(1) have pos: "0 < W" by simp
  have "py_mul_int_float W (1 / 2 ^ k) = fl (of_int W / 2 ^ k)"
    by (simp add: py_mul_int_float_def fl_of_int [OF assms])
  also have "\<dots> = of_int W / 2 ^ k" by (rule fl_dyadic [OF pos assms(2)])
  finally have v: "py_mul_int_float W (1 / 2 ^ k) = of_int W / of_int (2 ^ k)" by simp
  have "\<lfloor>rat_of_int W / of_int (2 ^ k)\<rfloor> = W div 2 ^ k" by (rule floor_divide_of_int_eq)
  moreover have "(0::rat) \<le> of_int W / of_int (2 ^ k)" using assms(1) by simp
  ultimately show ?thesis unfolding v py_int_def by simp
qed

lemma fl_below_integer:
  fixes k :: int
  assumes "1 \<le> k" "k < 2 ^ 31"
  shows "fl (of_int k - of_int k / 2 ^ 54) = of_int k"
proof -
  define x :: rat where "x = of_int k - of_int k / 2 ^ 54"
  define e where "e = ilog2 x"
  have k1: "(1::rat) \<le> of_int k" using assms(1) by simp
  have "(of_int k :: rat) < of_int (2 ^ 31)" using assms(2) by (simp only: of_int_less_iff)
  then have k2: "(of_int k :: rat) < 2 ^ 31" by simp
  have x_lo: "1 / 2 \<le> x" and x_hi: "x < of_int k" and x: "0 < x"
    using k1 by (simp_all add: x_def)
  have b: "2 powi e \<le> x" "x < 2 powi (e + 1)"
    using ilog2_bounds [OF x] by (simp_all add: e_def)
  have "(2::rat) powi e < 2 powi 31" using b(1) x_hi k2 by simp
  then have e_hi: "e < 31" by (rule powi_less_cancel)
  have "(2::rat) powi (- 1) < 2 powi (e + 1)" using b(2) x_lo by simp
  then have e_lo: "- 1 \<le> e" using powi_less_cancel [of "- 1" "e + 1"] by simp
  define p where "p = nat (e + 1)"
  have p: "(2::rat) powi (e + 1) = 2 ^ p" using e_lo by (simp add: p_def power_int_nonneg_exp)
  have kp: "k \<le> 2 ^ p"
  proof (rule ccontr)
    assume "\<not> k \<le> 2 ^ p"
    then have "2 ^ p + 1 \<le> k" by simp
    then have "(of_int (2 ^ p + 1) :: rat) \<le> of_int k" by (simp only: of_int_le_iff)
    then have "(2::rat) ^ p + 1 \<le> of_int k" by simp
    moreover have "(of_int k :: rat) / 2 ^ 54 < 1" using k2 by simp
    ultimately have "(2::rat) ^ p < x" by (simp add: x_def)
    with b(2) p show False by simp
  qed
  define M :: int where "M = 2 ^ nat (52 - e)"
  have M: "(2::rat) powi (52 - e) = of_int M"
    using e_hi by (simp add: M_def power_int_nonneg_exp)
  have evM: "even M" using e_hi by (simp add: M_def)
  have "(2::rat) powi ((52 - e) + (e + 1)) = 2 powi (52 - e) * 2 powi (e + 1)"
    by (rule power_int_add) simp
  moreover have "(52 - e) + (e + 1) = 53" by simp
  ultimately have "(2::rat) powi (52 - e) * 2 powi (e + 1) = 2 powi 53" by (simp only:)
  then have Mp: "(of_int M :: rat) * 2 ^ p = 2 ^ 53" by (simp only: M p power_int_numeral)
  have ux: "ulp x = 2 powi (e - 52)" using x by (simp only: ulp_def e_def abs_of_pos)
  have "(2::rat) powi ((52 - e) + (e - 52)) = 2 powi (52 - e) * 2 powi (e - 52)"
    by (rule power_int_add) simp
  moreover have "(52 - e) + (e - 52) = 0" by simp
  ultimately have "(2::rat) powi (52 - e) * 2 powi (e - 52) = 1"
    by (simp only: power_int_0_right)
  then have Mu: "of_int M * ulp x = 1" by (simp only: M ux)
  have u: "0 < ulp x" by (rule ulp_pos)
  have xu: "x / ulp x = x * of_int M" using Mu u by (simp add: field_simps)
  define d :: rat where "d = of_int k * of_int M / 2 ^ 54"
  have y: "x / ulp x = of_int (k * M) - d"
    unfolding xu by (simp add: x_def d_def algebra_simps)
  have "(of_int k :: rat) \<le> of_int (2 ^ p)" using kp by (simp only: of_int_le_iff)
  then have "(of_int k :: rat) \<le> 2 ^ p" by simp
  moreover have Mpos: "(0::rat) < of_int M" by (simp add: M_def)
  ultimately have "of_int k * of_int M \<le> (2::rat) ^ p * of_int M"
    by (intro mult_right_mono) simp_all
  then have "of_int k * of_int M \<le> (2::rat) ^ 53" using Mp by (simp add: mult.commute)
  then have d_hi: "d \<le> 1 / 2" by (simp add: d_def mult.commute)
  have d_lo: "0 < d" using k1 Mpos by (simp add: d_def)
  have "rne (x / ulp x) = k * M"
    using d_hi d_lo evM by (intro rne_near) (simp_all add: y)
  then have "fl x = of_int (k * M) * ulp x" using x by (simp add: fl_def)
  also have "\<dots> = of_int k * (of_int M * ulp x)" by simp
  finally show ?thesis using Mu by (simp add: x_def)
qed

lemma py_int_third:
  assumes "0 \<le> W" "W < 2 ^ 31"
  shows "py_int (py_mul_int_float W (fl (1 / 3))) = W div 3"
proof (cases "W = 0")
  case True
  then show ?thesis by (simp add: py_mul_int_float_def fl_def py_int_def)
next
  case False
  define c :: rat where "c = 6004799503160661 / 2 ^ 54"
  define k r where "k = W div 3" and "r = W mod 3"
  define x where "x = of_int W * c"
  have W53: "W < 2 ^ 53" using assms(2) by simp
  have v: "py_mul_int_float W (fl (1 / 3)) = fl x"
    by (simp add: py_mul_int_float_def fl_of_int [OF assms(1) W53] third_const x_def c_def)
  have W: "W = 3 * k + r" "0 \<le> r" "r < 3" "0 \<le> k" "k \<le> W"
    using assms(1) by (simp_all add: k_def r_def)
  have "(of_int W :: rat) = of_int (3 * k + r)" using W(1) by simp
  then have x_eq: "x = of_int k - of_int k / 2 ^ 54 + of_int r * c"
    by (simp add: x_def c_def algebra_simps)
  have "(of_int k :: rat) < of_int (2 ^ 31)" using W(5) assms(2) by (simp only: of_int_less_iff)
  then have k2: "(of_int k :: rat) < 2 ^ 31" by simp
  have k0: "(0::rat) \<le> of_int k" using W(4) by simp
  have "of_int k \<le> fl x \<and> fl x < of_int k + 1"
  proof (cases "r = 0")
    case True
    with W(1,4) False have "1 \<le> k" by simp
    moreover have "k < 2 ^ 31" using W(5) assms(2) by simp
    ultimately have "fl (of_int k - of_int k / 2 ^ 54) = of_int k" by (rule fl_below_integer)
    moreover have "x = of_int k - of_int k / 2 ^ 54"
      using True x_eq by (simp only: of_int_0 mult_zero_left add_0_right)
    ultimately have "fl x = of_int k" by (simp only:)
    then show ?thesis by simp
  next
    case r: False
    with W(2,3) have "r = 1 \<or> r = 2" by auto
    then have rc: "c \<le> of_int r * c" "of_int r * c \<le> 2 * c" by (auto simp add: c_def)
    have x: "0 < x" using assms(1) False by (simp add: x_def c_def)
    have "(of_int W :: rat) < of_int (2 ^ 31)" using assms(2) by (simp only: of_int_less_iff)
    then have "x < 2 ^ 31" using assms(1) by (simp add: x_def c_def)
    then have "x / 2 ^ 53 < 1 / 100" by simp
    with fl_error [OF x] have err: "\<bar>fl x - x\<bar> < 1 / 100" by simp
    have kk: "of_int k / (2::rat) ^ 54 < 1 / 100" "0 \<le> of_int k / (2::rat) ^ 54"
      using k2 k0 by simp_all
    have c: "3 / 10 < c" "c < 7 / 20" by (simp_all add: c_def)
    from err rc kk c x_eq show ?thesis by linarith
  qed
  then have "\<lfloor>fl x\<rfloor> = k" by (intro floor_unique) simp_all
  moreover have "0 \<le> fl x" using \<open>of_int k \<le> fl x \<and> fl x < of_int k + 1\<close> k0 by simp
  ultimately show ?thesis by (simp add: v py_int_def k_def)
qed

section \<open>The timer interval and the converted frame\<close>

text \<open>
  C9. A start that goes through (not recording, a path chosen) arms the timer with
  1000 divided by the fps, the quotient truncated to an integer, the fps being raised
  to 1 first when it is lower; the float division of the source and the integer
  division give the same interval for every fps.
\<close>

theorem timer_interval:
  assumes "\<not> recording st" "answer \<noteq> []"
  shows "start_recording answer st =
           \<lparr>raised = None, effects = [Dialog],
            final = st\<lparr>target_path := Some answer,
                       timer := Some (1000 div max 1 (fps_box st)),
                       btn_start := False, btn_stop := True, recording := True,
                       last_frame_time := 0\<rparr>\<rparr>"
proof -
  have "1 \<le> max 1 (fps_box st)" by simp
  from interval_exact [OF this] assms show ?thesis
    by (simp add: start_recording_def choose_target_def py_truediv_def Let_def)
qed

theorem timer_interval_witness:
  "\<not> recording ((init True)\<lparr>fps_box := 7\<rparr>) \<and> ''out.mp4'' \<noteq> [] \<and>
   timer (final (start_recording ''out.mp4'' ((init True)\<lparr>fps_box := 7\<rparr>))) = Some 142 \<and>
   raised (start_recording ''out.mp4'' ((init True)\<lparr>fps_box := 7\<rparr>)) = None"
proof -
  have a: "\<not> recording ((init True)\<lparr>fps_box := 7\<rparr>)" by (simp add: init_def)
  have b: "''out.mp4'' \<noteq> []" by simp
  from timer_interval [OF a b] a b show ?thesis by simp
qed

lemma scale_factor_not_one: "scale_factor m \<noteq> 1 \<longleftrightarrow> m \<noteq> Original"
  by (cases m) (simp_all add: scale_factor_def third_const)

lemma scaled_dimension:
  assumes "0 \<le> W" "W < 2 ^ 31" "m \<noteq> Original"
  shows "py_int (py_mul_int_float W (scale_factor m)) = \<lfloor>of_int W * ratio m\<rfloor>"
proof -
  have W53: "W < 2 ^ 53" using assms(2) by simp
  have fd: "\<lfloor>rat_of_int W / of_int d\<rfloor> = W div d" for d
    by (rule floor_divide_of_int_eq)
  show ?thesis
  proof (cases m)
    case Original
    with assms(3) show ?thesis by simp
  next
    case Half
    with py_int_half [OF assms(1) W53, of 1] fd [of 2] show ?thesis
      by (simp add: scale_factor_def ratio_def)
  next
    case Third
    with py_int_third [OF assms(1,2)] fd [of 3] show ?thesis
      by (simp add: scale_factor_def ratio_def)
  next
    case Quarter
    with py_int_half [OF assms(1) W53, of 2] fd [of 4] show ?thesis
      by (simp add: scale_factor_def ratio_def)
  qed
qed

lemma ratio_bounds: "0 < ratio m \<and> ratio m \<le> 1"
  by (cases m) (simp_all add: ratio_def)

lemma scaled_positive:
  assumes "1 \<le> \<lfloor>rat_of_int W * ratio m\<rfloor>"
  shows "1 \<le> W"
proof (rule ccontr)
  assume "\<not> 1 \<le> W"
  then have "W \<le> 0" by simp
  then have "rat_of_int W \<le> 0" by simp
  then have "rat_of_int W * ratio m \<le> 0"
    using ratio_bounds [of m] by (simp add: mult_le_0_iff)
  then have "\<lfloor>rat_of_int W * ratio m\<rfloor> \<le> 0" by (simp add: floor_le_zero)
  with assms show False by simp
qed


text \<open>
  C2, amended. For each of the four scales and a captured image whose width and
  height are below \<open>2 ^ 31\<close>, as those of a Qt image are, and whose scaled width
  \<open>\<lfloor>W * s\<rfloor>\<close> and height \<open>\<lfloor>H * s\<rfloor>\<close> are at least 1, the conversion succeeds and the
  converted frame has \<open>\<lfloor>W * s\<rfloor>\<close> columns and \<open>\<lfloor>H * s\<rfloor>\<close> rows, three channels, and pixels that
  are the captured ones resampled with \<open>INTER_AREA\<close> (unless the scale is 1) and then
  converted from BGRA to BGR.
\<close>

theorem converted_size:
  assumes "px_width pix < 2 ^ 31" "px_height pix < 2 ^ 31"
    "1 \<le> \<lfloor>of_int (px_width pix) * ratio m\<rfloor>" "1 \<le> \<lfloor>of_int (px_height pix) * ratio m\<rfloor>"
  shows "frame_bgr_of m pix =
    Inr \<lparr>rows = \<lfloor>of_int (px_height pix) * ratio m\<rfloor>,
         cols = \<lfloor>of_int (px_width pix) * ratio m\<rfloor>,
         chans = 3,
         buf = Bgra2bgr
           (if m = Original then Grabbed (px_shot pix)
            else Resampled INTER_AREA \<lfloor>of_int (px_width pix) * ratio m\<rfloor>
                   \<lfloor>of_int (px_height pix) * ratio m\<rfloor> (Grabbed (px_shot pix)))\<rparr>"
proof -
  have W: "1 \<le> px_width pix" using assms(3) by (rule scaled_positive)
  have H: "1 \<le> px_height pix" using assms(4) by (rule scaled_positive)
  show ?thesis
  proof (cases "m = Original")
    case True
    with W H show ?thesis
      by (simp add: frame_bgr_of_def qimage_from_pixmap_def qimage_to_numpy_def
          scale_factor_def ratio_def cv2_cvtColor_BGRA2BGR_def)
  next
    case False
    have W0: "0 \<le> px_width pix" and H0: "0 \<le> px_height pix" using W H by simp_all
    note w = scaled_dimension [OF W0 assms(1) False]
    note h = scaled_dimension [OF H0 assms(2) False]
    from False have "scale_factor m \<noteq> 1" by (simp add: scale_factor_not_one)
    with False w h W H assms(3,4) show ?thesis
      by (simp add: frame_bgr_of_def qimage_from_pixmap_def qimage_to_numpy_def
          cv2_cvtColor_BGRA2BGR_def cv2_resize_def resampled_def Let_def)
  qed
qed

theorem converted_size_witness:
  "px_width \<lparr>px_width = 1919, px_height = 1079, px_dpr = 1, px_shot = 0\<rparr> < 2 ^ 31 \<and>
   px_height \<lparr>px_width = 1919, px_height = 1079, px_dpr = 1, px_shot = 0\<rparr> < 2 ^ 31 \<and>
   1 \<le> \<lfloor>rat_of_int (px_width \<lparr>px_width = 1919, px_height = 1079, px_dpr = 1, px_shot = 0\<rparr>) *
          ratio Third\<rfloor> \<and>
   1 \<le> \<lfloor>rat_of_int (px_height \<lparr>px_width = 1919, px_height = 1079, px_dpr = 1, px_shot = 0\<rparr>) *
          ratio Third\<rfloor> \<and>
   frame_bgr_of Third \<lparr>px_width = 1919, px_height = 1079, px_dpr = 1, px_shot = 0\<rparr> =
     Inr \<lparr>rows = 359, cols = 639, chans = 3,
          buf = Bgra2bgr (Resampled INTER_AREA 639 359 (Grabbed 0))\<rparr>"
proof -
  let ?pix = "\<lparr>px_width = 1919, px_height = 1079, px_dpr = 1, px_shot = 0\<rparr>"
  have r: "\<lfloor>rat_of_int 1919 * ratio Third\<rfloor> = 639" "\<lfloor>rat_of_int 1079 * ratio Third\<rfloor> = 359"
    using floor_divide_of_int_eq [of 1919 3, where ?'a = rat]
      floor_divide_of_int_eq [of 1079 3, where ?'a = rat]
    by (simp_all add: ratio_def)
  have a: "px_width ?pix < 2 ^ 31" and b: "px_height ?pix < 2 ^ 31"
    and c: "1 \<le> \<lfloor>rat_of_int (px_width ?pix) * ratio Third\<rfloor>"
    and d: "1 \<le> \<lfloor>rat_of_int (px_height ?pix) * ratio Third\<rfloor>"
    using r by simp_all
  from converted_size [OF a b c d] r a b c d show ?thesis by simp
qed

text \<open>
  The claim as worded, for every input frame, fails: a 1 by 1 grab at scale 1/2 has
  the scaled size 0 by 0, for which \<^verbatim>\<open>cv2.resize\<close> raises, and a null grab has no pixel
  buffer, so that \<^verbatim>\<open>qimage_to_numpy\<close> raises; no converted frame exists in either case.
\<close>

theorem converted_size_counterexample:
  "frame_bgr_of Half \<lparr>px_width = 1, px_height = 1, px_dpr = 1, px_shot = 0\<rparr> = Inl CvError \<and>
   frame_bgr_of Original \<lparr>px_width = 0, px_height = 0, px_dpr = 1, px_shot = 0\<rparr> =
     Inl AttributeError"
  by code_simp

section \<open>Start and stop\<close>

lemma started_example: "recording (final (start_recording ''out.mp4'' (init True)))"
  by (simp add: start_recording_def init_def choose_target_def py_truediv_def Let_def)

lemma init_idle:
  "\<not> recording (init True) \<and> target_path (init True) = None \<and>
   timer (init True) = None \<and> writer (init True) = None"
  by (simp add: init_def)

text \<open>
  C10. Start while the session is recording returns at once: no exception, no effect
  on the outside world (no save dialog is shown), and the recorder is the one it was,
  field for field, whatever the dialog would have answered.
\<close>

theorem start_while_recording_is_noop:
  "recording st \<Longrightarrow> start_recording answer st = \<lparr>raised = None, effects = [], final = st\<rparr>"
  by (simp add: start_recording_def)

theorem start_while_recording_is_noop_witness:
  "recording (final (start_recording ''out.mp4'' (init True))) \<and>
   start_recording ''again.avi'' (final (start_recording ''out.mp4'' (init True))) =
     \<lparr>raised = None, effects = [], final = final (start_recording ''out.mp4'' (init True))\<rparr>"
  using started_example start_while_recording_is_noop [OF started_example, of "''again.avi''"]
  by blast

text \<open>
  C4. Start with an empty path (the answer of a cancelled dialog) from a recorder that
  is not recording shows the dialog and nothing else: the recording flag stays false,
  the timer and the writer are what they were, and the only field assigned is the
  target path, which becomes \<open>None\<close>; so a recorder whose target path is \<open>None\<close>, as
  every idle one, is left unchanged.
\<close>

theorem start_cancelled_stays_idle:
  assumes "\<not> recording st"
  shows "start_recording [] st =
           \<lparr>raised = None, effects = [Dialog], final = st\<lparr>target_path := None\<rparr>\<rparr> \<and>
         \<not> recording (final (start_recording [] st)) \<and>
         timer (final (start_recording [] st)) = timer st \<and>
         writer (final (start_recording [] st)) = writer st \<and>
         (target_path st = None \<longrightarrow> final (start_recording [] st) = st)"
  using assms by (simp add: start_recording_def choose_target_def)

theorem start_cancelled_stays_idle_witness:
  "\<not> recording (init True) \<and> target_path (init True) = None \<and>
   timer (init True) = None \<and> writer (init True) = None \<and>
   final (start_recording [] (init True)) = init True \<and>
   effects (start_recording [] (init True)) = [Dialog] \<and>
   raised (start_recording [] (init True)) = None"
proof -
  have h: "\<not> recording (init True)" using init_idle by blast
  from start_cancelled_stays_idle [OF h] init_idle show ?thesis by simp
qed

text \<open>
  C6. Releasing the writer never raises, whether the library call does or not, and
  leaves no writer; a second release, and a release when there is no writer, do
  nothing at all; a release whose library call raises still drops the writer.
\<close>

theorem release_writer_idempotent:
  "raised (release_writer fails st) = None \<and>
   writer (final (release_writer fails st)) = None \<and>
   release_writer fails' (final (release_writer fails st)) =
     \<lparr>raised = None, effects = [], final = final (release_writer fails st)\<rparr> \<and>
   release_writer fails (st\<lparr>writer := None\<rparr>) =
     \<lparr>raised = None, effects = [], final = st\<lparr>writer := None\<rparr>\<rparr> \<and>
   cv2_release True w = Inl CvError \<and>
   release_writer True (st\<lparr>writer := Some w\<rparr>) =
     \<lparr>raised = None, effects = [Released w], final = st\<lparr>writer := None\<rparr>\<rparr>"
  by (simp add: release_writer_def cv2_release_def split: option.splits)

text \<open>
  C5. A close event while recording runs the whole stop transition and then the
  teardown: the timer is stopped, the recording flag cleared, the buttons reset, the
  writer (when there is one) released and dropped, the target path and size cleared;
  the recorder it leaves is the one the stop button leaves.
\<close>

theorem close_while_recording_stops:
  assumes "recording st"
  shows "closeEvent fails st =
           \<lparr>raised = None,
            effects = (case writer st of None \<Rightarrow> [] | Some w \<Rightarrow> [Released w]) @ [Teardown],
            final = st\<lparr>timer := None, btn_start := True, btn_stop := False,
                       recording := False, writer := None, target_path := None,
                       target_size := None\<rparr>\<rparr> \<and>
         final (closeEvent fails st) = final (stop_recording fails st)"
  using assms
  by (simp add: closeEvent_def stop_recording_def release_writer_def cv2_release_def Let_def
      split: option.splits)

section \<open>Opening the encoder\<close>

lemma init_writer_eq:
  "init_writer w h fps p is_opened =
     ([Constructed \<lparr>vw_path = p,
                    vw_fourcc = (if lower (suffix p) = ''.mp4'' then 1983148141 else 1145656920),
                    vw_fps = fps, vw_size = (w, h)\<rparr> is_opened],
      if is_opened
      then Inr \<lparr>vw_path = p,
                vw_fourcc = (if lower (suffix p) = ''.mp4'' then 1983148141 else 1145656920),
                vw_fps = fps, vw_size = (w, h)\<rparr>
      else Inl RuntimeError)"
  by (simp add: init_writer_def VideoWriter_fourcc_def Let_def)

text \<open>
  C8. The encoder is constructed with the codec the path's extension selects: the
  extension \<open>.mp4\<close>, in any letter case, gives the identifier of \<open>mp4v\<close> (1983148141),
  and every other path, \<open>.avi\<close> among them, gives that of \<open>XVID\<close> (1145656920).
\<close>

theorem codec_selected_by_extension:
  "init_writer w h fps p is_opened =
     ([Constructed \<lparr>vw_path = p,
                    vw_fourcc = (if lower (suffix p) = ''.mp4'' then 1983148141 else 1145656920),
                    vw_fps = fps, vw_size = (w, h)\<rparr> is_opened],
      if is_opened
      then Inr \<lparr>vw_path = p,
                vw_fourcc = (if lower (suffix p) = ''.mp4'' then 1983148141 else 1145656920),
                vw_fps = fps, vw_size = (w, h)\<rparr>
      else Inl RuntimeError) \<and>
   lower (suffix ''/home/user/screen_20240101_120000.mp4'') = ''.mp4'' \<and>
   lower (suffix ''clip.MP4'') = ''.mp4'' \<and>
   lower (suffix ''clip.avi'') = ''.avi'' \<and>
   lower (suffix ''notes.txt'') = ''.txt'' \<and>
   lower (suffix ''noext'') = []"
proof -
  have a: "lower (suffix ''/home/user/screen_20240101_120000.mp4'') = ''.mp4''" by code_simp
  have b: "lower (suffix ''clip.MP4'') = ''.mp4''" by code_simp
  have c: "lower (suffix ''clip.avi'') = ''.avi''" by code_simp
  have d: "lower (suffix ''notes.txt'') = ''.txt''" by code_simp
  have e: "lower (suffix ''noext'') = []" by code_simp
  show ?thesis using init_writer_eq [of w h fps p is_opened] a b c d e by blast
qed

lemma started_fields:
  "screen (final (start_recording ''out.mp4'' (init True))) \<and>
   writer (final (start_recording ''out.mp4'' (init True))) = None \<and>
   target_path (final (start_recording ''out.mp4'' (init True))) = Some ''out.mp4'' \<and>
   target_size (final (start_recording ''out.mp4'' (init True))) = None \<and>
   fps_box (final (start_recording ''out.mp4'' (init True))) = 20 \<and>
   scale_box (final (start_recording ''out.mp4'' (init True))) = Original"
  by (simp add: start_recording_def init_def choose_target_def py_truediv_def Let_def)

lemma frame_bgr_of_dpr [simp]: "frame_bgr_of m (pix\<lparr>px_dpr := d\<rparr>) = frame_bgr_of m pix"
  by (simp add: frame_bgr_of_def qimage_from_pixmap_def)

lemma screenshot_original:
  "frame_bgr_of Original (screenshot i) =
     Inr \<lparr>rows = 1080, cols = 1920, chans = 3, buf = Bgra2bgr (Grabbed i)\<rparr>"
  by (simp add: frame_bgr_of_def screenshot_def qimage_from_pixmap_def qimage_to_numpy_def
      scale_factor_def cv2_cvtColor_BGRA2BGR_def)

text \<open>
  C7. When the encoder does not open, \<^verbatim>\<open>_init_writer\<close> raises \<open>RuntimeError\<close>. A first
  recorded tick with an encoder that does not open always ends with an exception,
  writes no frame and leaves the recorder without a writer and with the target size it
  had; when the conversion of the grab succeeds, the exception is that \<open>RuntimeError\<close>,
  raised after the one failed construction, and when the conversion itself raises,
  its exception leaves the tick before an encoder is constructed.
\<close>

theorem cannot_open_is_raised:
  assumes "screen st" "recording st" "writer st = None" "target_path st = Some p"
  shows "snd (init_writer w h fps p False) = Inl RuntimeError \<and>
         raised (on_tick pix False st) \<noteq> None \<and>
         written (effects (on_tick pix False st)) = [] \<and>
         writer (final (on_tick pix False st)) = None \<and>
         target_size (final (on_tick pix False st)) = target_size st \<and>
         (case frame_bgr_of (scale_box st) pix of
            Inl e \<Rightarrow>
              raised (on_tick pix False st) = Some e \<and> effects (on_tick pix False st) = []
          | Inr c \<Rightarrow>
              raised (on_tick pix False st) = Some RuntimeError \<and>
              effects (on_tick pix False st) =
                [Constructed
                   \<lparr>vw_path = p,
                    vw_fourcc = (if lower (suffix p) = ''.mp4'' then 1983148141 else 1145656920),
                    vw_fps = fps_box st, vw_size = (cols c, rows c)\<rparr> False])"
  using assms
  by (simp add: on_tick_def init_writer_eq Let_def split: sum.splits)

theorem cannot_open_is_raised_witness:
  "screen (final (start_recording ''out.mp4'' (init True))) \<and>
   recording (final (start_recording ''out.mp4'' (init True))) \<and>
   writer (final (start_recording ''out.mp4'' (init True))) = None \<and>
   target_path (final (start_recording ''out.mp4'' (init True))) = Some ''out.mp4'' \<and>
   snd (init_writer 1920 1080 20 ''out.mp4'' False) = Inl RuntimeError \<and>
   raised (on_tick (screenshot 0) False (final (start_recording ''out.mp4'' (init True)))) =
     Some RuntimeError \<and>
   effects (on_tick (screenshot 0) False (final (start_recording ''out.mp4'' (init True)))) =
     [Constructed \<lparr>vw_path = ''out.mp4'', vw_fourcc = 1983148141, vw_fps = 20,
                   vw_size = (1920, 1080)\<rparr> False] \<and>
   writer (final (on_tick (screenshot 0) False
     (final (start_recording ''out.mp4'' (init True))))) = None"
proof -
  let ?st = "final (start_recording ''out.mp4'' (init True))"
  have a: "screen ?st" and b: "writer ?st = None" and c: "target_path ?st = Some ''out.mp4''"
    and f: "fps_box ?st = 20" and sc: "scale_box ?st = Original"
    using started_fields by blast+
  have sfx: "lower (suffix ''out.mp4'') = ''.mp4''" by code_simp
  from cannot_open_is_raised [OF a started_example b c, of 1920 1080 20 "screenshot 0"]
  have "snd (init_writer 1920 1080 20 ''out.mp4'' False) = Inl RuntimeError \<and>
    raised (on_tick (screenshot 0) False ?st) = Some RuntimeError \<and>
    effects (on_tick (screenshot 0) False ?st) =
     [Constructed \<lparr>vw_path = ''out.mp4'', vw_fourcc = 1983148141, vw_fps = 20,
                   vw_size = (1920, 1080)\<rparr> False] \<and>
    writer (final (on_tick (screenshot 0) False ?st)) = None"
    by (simp add: sc f sfx screenshot_original)
  with a b c started_example show ?thesis by blast
qed

section \<open>The recording session\<close>

lemma frame_positive:
  assumes "frame_bgr_of m pix = Inr c"
  shows "1 \<le> cols c \<and> 1 \<le> rows c"
  using assms
  by (auto simp add: frame_bgr_of_def qimage_from_pixmap_def qimage_to_numpy_def
      cv2_resize_def resampled_def cv2_cvtColor_BGRA2BGR_def Let_def
      split: if_splits sum.splits)

lemma on_tick_no_screen:
  "\<not> screen st \<Longrightarrow> on_tick pix b st = \<lparr>raised = None, effects = [], final = st\<rparr>"
  by (simp add: on_tick_def)

lemma on_tick_fixed:
  assumes "screen st" "recording st" "writer st = Some w" "target_size st = Some g"
    "1 \<le> fst g" "1 \<le> snd g"
  shows "on_tick pix b st =
    (case frame_bgr_of (scale_box st) pix of
       Inl e \<Rightarrow>
         \<lparr>raised = Some e, effects = [],
          final = st\<lparr>preview :=
            (if keep_ratio st
             then Showing (if px_dpr pix \<noteq> 1 then pix\<lparr>px_dpr := 1\<rparr> else pix) KeepAspectRatio
             else Showing (if px_dpr pix \<noteq> 1 then pix\<lparr>px_dpr := 1\<rparr> else pix)
                    IgnoreAspectRatio)\<rparr>\<rparr>
     | Inr c \<Rightarrow>
         \<lparr>raised = None, effects = [Written w (fit_to g c)],
          final = st\<lparr>preview :=
            (if keep_ratio st
             then Showing (if px_dpr pix \<noteq> 1 then pix\<lparr>px_dpr := 1\<rparr> else pix) KeepAspectRatio
             else Showing (if px_dpr pix \<noteq> 1 then pix\<lparr>px_dpr := 1\<rparr> else pix)
                    IgnoreAspectRatio)\<rparr>\<rparr>)"
proof (cases "frame_bgr_of (scale_box st) pix")
  case (Inl e)
  with assms show ?thesis by (simp add: on_tick_def Let_def)
next
  case (Inr c)
  from frame_positive [OF Inr] assms(5,6)
  have "cv2_resize c g INTER_AREA = Inr (resampled c g INTER_AREA)"
    by (simp add: cv2_resize_def)
  with Inr assms show ?thesis by (simp add: on_tick_def Let_def fit_to_def)
qed

lemma on_tick_first:
  assumes "screen st" "recording st" "writer st = None" "target_path st = Some p"
    "frame_bgr_of (scale_box st) pix = Inr c"
  shows "on_tick pix True st =
    \<lparr>raised = None,
     effects =
       [Constructed \<lparr>vw_path = p,
           vw_fourcc = (if lower (suffix p) = ''.mp4'' then 1983148141 else 1145656920),
           vw_fps = fps_box st, vw_size = (cols c, rows c)\<rparr> True,
        Written \<lparr>vw_path = p,
           vw_fourcc = (if lower (suffix p) = ''.mp4'' then 1983148141 else 1145656920),
           vw_fps = fps_box st, vw_size = (cols c, rows c)\<rparr> c],
     final = st\<lparr>preview :=
         (if keep_ratio st
          then Showing (if px_dpr pix \<noteq> 1 then pix\<lparr>px_dpr := 1\<rparr> else pix) KeepAspectRatio
          else Showing (if px_dpr pix \<noteq> 1 then pix\<lparr>px_dpr := 1\<rparr> else pix) IgnoreAspectRatio),
       writer := Some \<lparr>vw_path = p,
           vw_fourcc = (if lower (suffix p) = ''.mp4'' then 1983148141 else 1145656920),
           vw_fps = fps_box st, vw_size = (cols c, rows c)\<rparr>,
       target_size := Some (cols c, rows c)\<rparr>\<rparr>"
  using assms by (simp add: on_tick_def Let_def init_writer_eq)

lemma on_tick_first_fails:
  assumes "screen st" "recording st" "writer st = None"
    "target_path st = None \<or> \<not> b \<or> (\<exists>e. frame_bgr_of (scale_box st) pix = Inl e)"
  shows "raised (on_tick pix b st) \<noteq> None \<and> written (effects (on_tick pix b st)) = []"
  using assms
  by (auto simp add: on_tick_def Let_def init_writer_eq split: option.splits sum.splits)

lemma written_append: "written (xs @ ys) = written xs @ written ys"
  by (induction xs rule: written.induct) simp_all

lemma constructed_append: "constructed (xs @ ys) = constructed xs @ constructed ys"
  by (induction xs rule: constructed.induct) simp_all

lemma fit_to_size: "(cols (fit_to g c), rows (fit_to g c)) = g"
  by (cases g) (auto simp add: fit_to_def resampled_def)

lemma session_writes_sized:
  "\<forall>(w', f) \<in> set (session_writes g w m evs). w' = w \<and> (cols f, rows f) = g"
proof (induction evs arbitrary: m)
  case Nil
  then show ?case by simp
next
  case (Cons ev evs)
  show ?case
  proof (cases ev)
    case (Tick pix b)
    show ?thesis
    proof (cases "frame_bgr_of m pix")
      case (Inl e)
      with Tick show ?thesis by simp
    next
      case (Inr c)
      with Tick Cons [of m] fit_to_size [of g c] show ?thesis by simp
    qed
  qed (use Cons in simp_all)
qed

lemma handle_fixed:
  assumes "geometry_fixed g w st" "screen st" "in_session ev"
  shows "geometry_fixed g w (final (handle ev st)) \<and> screen (final (handle ev st)) \<and>
         constructed (effects (handle ev st)) = []"
proof (cases ev)
  case (Tick pix b)
  from assms(1) have f: "recording st" "writer st = Some w" "target_size st = Some g"
    "1 \<le> fst g" "1 \<le> snd g" "vw_size w = g"
    by (simp_all add: geometry_fixed_def)
  from on_tick_fixed [OF assms(2) f(1-5), of pix b] f assms(2) Tick show ?thesis
    by (simp add: handle_def geometry_fixed_def split: sum.splits)
qed (use assms in \<open>auto simp add: handle_def geometry_fixed_def start_recording_def\<close>)

lemma run_session:
  assumes "geometry_fixed g w st" "screen st" "list_all in_session evs"
  shows "written (effects (run evs st)) = session_writes g w (scale_box st) evs \<and>
         constructed (effects (run evs st)) = []"
  using assms
proof (induction evs arbitrary: st)
  case Nil
  then show ?case by simp
next
  case (Cons ev evs)
  from Cons.prems have ev: "in_session ev" and evs: "list_all in_session evs" by simp_all
  note h = handle_fixed [OF Cons.prems(1,2) ev]
  from h have g': "geometry_fixed g w (final (handle ev st))"
    and s': "screen (final (handle ev st))"
    and c': "constructed (effects (handle ev st)) = []" by blast+
  note ih = Cons.IH [OF g' s' evs]
  from Cons.prems(1) have f: "recording st" "writer st = Some w" "target_size st = Some g"
    "1 \<le> fst g" "1 \<le> snd g"
    by (simp_all add: geometry_fixed_def)
  show ?case
  proof (cases ev)
    case (Tick pix b)
    note t = on_tick_fixed [OF Cons.prems(2) f, of pix b]
    show ?thesis
    proof (cases "frame_bgr_of (scale_box st) pix")
      case (Inl e)
      with t Tick show ?thesis by (simp add: handle_def)
    next
      case (Inr c)
      with t Tick have hd: "handle ev st = on_tick pix b st"
        "raised (on_tick pix b st) = None"
        "effects (on_tick pix b st) = [Written w (fit_to g c)]"
        "scale_box (final (on_tick pix b st)) = scale_box st"
        by (simp_all add: handle_def)
      with ih Inr Tick show ?thesis by (simp add: Let_def)
    qed
  next
    case (Start answer)
    with ih f(1) show ?thesis by (simp add: handle_def start_recording_def Let_def)
  next
    case (Stop fails)
    with ev show ?thesis by simp
  next
    case (Close fails)
    with ev show ?thesis by simp
  next
    case (Set_fps v)
    with ih show ?thesis by (simp add: handle_def Let_def)
  next
    case (Set_scale m)
    with ih show ?thesis by (simp add: handle_def Let_def)
  next
    case (Set_keep_ratio b)
    with ih show ?thesis by (simp add: handle_def Let_def)
  qed
qed

lemma handle_no_screen:
  "\<not> screen st \<Longrightarrow>
   written (effects (handle ev st)) = [] \<and> \<not> screen (final (handle ev st))"
  by (cases ev)
    (auto simp add: handle_def on_tick_no_screen start_recording_def stop_recording_def
      closeEvent_def release_writer_def cv2_release_def Let_def
      split: option.splits sum.splits)

lemma run_no_screen: "\<not> screen st \<Longrightarrow> written (effects (run evs st)) = []"
proof (induction evs arbitrary: st)
  case Nil
  then show ?case by simp
next
  case (Cons ev evs)
  from handle_no_screen [OF Cons.prems, of ev] Cons.IH [of "final (handle ev st)"]
  show ?case by (auto simp add: Let_def written_append split: option.splits)
qed

lemma on_tick_first_fixed:
  assumes "screen st" "recording st" "writer st = None" "target_path st = Some p"
    "frame_bgr_of (scale_box st) pix = Inr c"
  shows "geometry_fixed (cols c, rows c)
           \<lparr>vw_path = p,
            vw_fourcc = (if lower (suffix p) = ''.mp4'' then 1983148141 else 1145656920),
            vw_fps = fps_box st, vw_size = (cols c, rows c)\<rparr>
           (final (on_tick pix True st)) \<and>
         screen (final (on_tick pix True st)) \<and>
         scale_box (final (on_tick pix True st)) = scale_box st"
  using on_tick_first [OF assms, of] assms(1,2) frame_positive [OF assms(5)]
  by (simp add: geometry_fixed_def)

lemma first_tick_run:
  assumes "screen st" "recording st" "writer st = None" "target_path st = Some p"
    "frame_bgr_of (scale_box st) pix = Inr c" "list_all in_session evs"
  shows "effects (run (Tick pix True # evs) st) =
           Constructed \<lparr>vw_path = p,
               vw_fourcc = (if lower (suffix p) = ''.mp4'' then 1983148141 else 1145656920),
               vw_fps = fps_box st, vw_size = (cols c, rows c)\<rparr> True #
           Written \<lparr>vw_path = p,
               vw_fourcc = (if lower (suffix p) = ''.mp4'' then 1983148141 else 1145656920),
               vw_fps = fps_box st, vw_size = (cols c, rows c)\<rparr> c #
           effects (run evs (final (on_tick pix True st))) \<and>
         constructed (effects (run evs (final (on_tick pix True st)))) = [] \<and>
         written (effects (run evs (final (on_tick pix True st)))) =
           session_writes (cols c, rows c)
             \<lparr>vw_path = p,
              vw_fourcc = (if lower (suffix p) = ''.mp4'' then 1983148141 else 1145656920),
              vw_fps = fps_box st, vw_size = (cols c, rows c)\<rparr> (scale_box st) evs"
proof -
  note t = on_tick_first [OF assms(1-5)]
  note f = on_tick_first_fixed [OF assms(1-5)]
  from f have g: "geometry_fixed (cols c, rows c)
           \<lparr>vw_path = p,
            vw_fourcc = (if lower (suffix p) = ''.mp4'' then 1983148141 else 1145656920),
            vw_fps = fps_box st, vw_size = (cols c, rows c)\<rparr>
           (final (on_tick pix True st))"
    and s: "screen (final (on_tick pix True st))"
    and sc: "scale_box (final (on_tick pix True st)) = scale_box st" by blast+
  note r = run_session [OF g s assms(6)]
  from t r sc show ?thesis by (simp add: handle_def Let_def)
qed

lemma half_of_1920: "py_int (py_mul_int_float 1920 (1 / 2)) = 960"
  by code_simp

lemma half_of_1080: "py_int (py_mul_int_float 1080 (1 / 2)) = 540"
  by code_simp

lemma interval_at_20: "py_truediv 1000 20 = Inr 50"
  by code_simp

lemma screenshot_half:
  "frame_bgr_of Half (screenshot i) =
     Inr \<lparr>rows = 540, cols = 960, chans = 3,
          buf = Bgra2bgr (Resampled INTER_AREA 960 540 (Grabbed i))\<rparr>"
  by (simp add: frame_bgr_of_def screenshot_def qimage_from_pixmap_def qimage_to_numpy_def
      scale_factor_def cv2_cvtColor_BGRA2BGR_def cv2_resize_def resampled_def
      half_of_1920 half_of_1080)

lemma scenario_start:
  "final (run [Set_scale Half, Start ''out.mp4''] (init True)) =
     (init True)\<lparr>scale_box := Half, target_path := Some ''out.mp4'', timer := Some 50,
                 btn_start := False, btn_stop := True, recording := True\<rparr>"
  by (simp add: handle_def start_recording_def init_def choose_target_def interval_at_20
      py_int_def Let_def)

text \<open>
  C1. In a session that starts with no writer, whatever the user does to the widgets
  between the ticks: every frame handed to \<^verbatim>\<open>write\<close> goes to a writer of the geometry of
  the first tick's converted frame and has that width and height itself; and when the
  first tick opens the writer, the frames written are exactly the expected ones
  (\<open>session_writes\<close>): the first converted frame, then for every later tick, in order,
  its converted frame, resized with \<open>INTER_AREA\<close> to the session's geometry when its
  size differs, up to a tick whose conversion raises.
\<close>

theorem session_geometry_fixed:
  assumes "recording st" "writer st = None" "list_all in_session evs"
  shows
    "(\<forall>(w, f) \<in> set (written (effects (run (Tick pix b # evs) st))).
        \<exists>c. frame_bgr_of (scale_box st) pix = Inr c \<and>
            vw_size w = (cols c, rows c) \<and> (cols f, rows f) = (cols c, rows c)) \<and>
     (screen st \<and> b \<and> target_path st = Some p \<and> frame_bgr_of (scale_box st) pix = Inr c \<longrightarrow>
        written (effects (run (Tick pix b # evs) st)) =
          (\<lparr>vw_path = p,
            vw_fourcc = (if lower (suffix p) = ''.mp4'' then 1983148141 else 1145656920),
            vw_fps = fps_box st, vw_size = (cols c, rows c)\<rparr>, c) #
          session_writes (cols c, rows c)
            \<lparr>vw_path = p,
             vw_fourcc = (if lower (suffix p) = ''.mp4'' then 1983148141 else 1145656920),
             vw_fps = fps_box st, vw_size = (cols c, rows c)\<rparr>
            (scale_box st) evs)"
proof (cases "screen st \<and> b \<and> target_path st \<noteq> None \<and>
    (\<exists>c. frame_bgr_of (scale_box st) pix = Inr c)")
  case False
  have "written (effects (run (Tick pix b # evs) st)) = []"
  proof (cases "screen st")
    case False
    then show ?thesis by (rule run_no_screen)
  next
    case True
    with False have "target_path st = None \<or> \<not> b \<or>
        (\<exists>e. frame_bgr_of (scale_box st) pix = Inl e)"
      by (cases "frame_bgr_of (scale_box st) pix") auto
    from on_tick_first_fails [OF True assms(1,2) this] show ?thesis
      by (auto simp add: handle_def)
  qed
  with False show ?thesis by auto
next
  case True
  then obtain p0 c0 where s: "screen st" and b: "b" and p0: "target_path st = Some p0"
    and c0: "frame_bgr_of (scale_box st) pix = Inr c0" by auto
  define g where "g = (cols c0, rows c0)"
  define wr where "wr = \<lparr>vw_path = p0,
      vw_fourcc = (if lower (suffix p0) = ''.mp4'' then 1983148141 else 1145656920),
      vw_fps = fps_box st, vw_size = (cols c0, rows c0)\<rparr>"
  have vs: "vw_size wr = (cols c0, rows c0)" by (simp add: wr_def)
  note r = first_tick_run [OF s assms(1,2) p0 c0 assms(3)]
  from r b have w: "written (effects (run (Tick pix b # evs) st)) =
      (wr, c0) # session_writes g wr (scale_box st) evs"
    by (simp add: wr_def g_def)
  have sz: "x \<in> set (session_writes g wr (scale_box st) evs) \<Longrightarrow>
      vw_size (fst x) = (cols c0, rows c0) \<and> (cols (snd x), rows (snd x)) = (cols c0, rows c0)"
    for x
    using session_writes_sized [of g wr "scale_box st" evs] vs
    by (cases x) (auto simp add: g_def)
  have A: "\<forall>(w, f) \<in> set (written (effects (run (Tick pix b # evs) st))).
        \<exists>c. frame_bgr_of (scale_box st) pix = Inr c \<and>
            vw_size w = (cols c, rows c) \<and> (cols f, rows f) = (cols c, rows c)"
  proof (rule ballI)
    fix x assume "x \<in> set (written (effects (run (Tick pix b # evs) st)))"
    then have "x = (wr, c0) \<or> x \<in> set (session_writes g wr (scale_box st) evs)"
      unfolding w by simp
    then have "vw_size (fst x) = (cols c0, rows c0) \<and>
        (cols (snd x), rows (snd x)) = (cols c0, rows c0)"
      using sz [of x] vs by auto
    with c0 show "case x of (w, f) \<Rightarrow>
        \<exists>c. frame_bgr_of (scale_box st) pix = Inr c \<and>
            vw_size w = (cols c, rows c) \<and> (cols f, rows f) = (cols c, rows c)"
      by (cases x) simp
  qed
  have B: "written (effects (run (Tick pix b # evs) st)) =
          (\<lparr>vw_path = p,
            vw_fourcc = (if lower (suffix p) = ''.mp4'' then 1983148141 else 1145656920),
            vw_fps = fps_box st, vw_size = (cols c, rows c)\<rparr>, c) #
          session_writes (cols c, rows c)
            \<lparr>vw_path = p,
             vw_fourcc = (if lower (suffix p) = ''.mp4'' then 1983148141 else 1145656920),
             vw_fps = fps_box st, vw_size = (cols c, rows c)\<rparr>
            (scale_box st) evs"
    if "target_path st = Some p" "frame_bgr_of (scale_box st) pix = Inr c"
    using that w p0 c0 by (simp add: wr_def g_def)
  from A B show ?thesis by blast
qed

theorem session_geometry_fixed_witness:
  "recording (final (start_recording ''out.mp4'' (init True))) \<and>
   writer (final (start_recording ''out.mp4'' (init True))) = None \<and>
   list_all in_session
     [Set_scale Half, Tick (screenshot 1) True, Set_scale Original, Tick (screenshot 2) True] \<and>
   screen (final (start_recording ''out.mp4'' (init True))) \<and>
   target_path (final (start_recording ''out.mp4'' (init True))) = Some ''out.mp4'' \<and>
   frame_bgr_of (scale_box (final (start_recording ''out.mp4'' (init True)))) (screenshot 0) =
     Inr \<lparr>rows = 1080, cols = 1920, chans = 3, buf = Bgra2bgr (Grabbed 0)\<rparr> \<and>
   written (effects (run (Tick (screenshot 0) True #
       [Set_scale Half, Tick (screenshot 1) True, Set_scale Original, Tick (screenshot 2) True])
     (final (start_recording ''out.mp4'' (init True))))) =
     [(\<lparr>vw_path = ''out.mp4'', vw_fourcc = 1983148141, vw_fps = 20, vw_size = (1920, 1080)\<rparr>,
       \<lparr>rows = 1080, cols = 1920, chans = 3, buf = Bgra2bgr (Grabbed 0)\<rparr>),
      (\<lparr>vw_path = ''out.mp4'', vw_fourcc = 1983148141, vw_fps = 20, vw_size = (1920, 1080)\<rparr>,
       \<lparr>rows = 1080, cols = 1920, chans = 3,
        buf = Resampled INTER_AREA 1920 1080
                (Bgra2bgr (Resampled INTER_AREA 960 540 (Grabbed 1)))\<rparr>),
      (\<lparr>vw_path = ''out.mp4'', vw_fourcc = 1983148141, vw_fps = 20, vw_size = (1920, 1080)\<rparr>,
       \<lparr>rows = 1080, cols = 1920, chans = 3, buf = Bgra2bgr (Grabbed 2)\<rparr>)]"
proof -
  let ?st = "final (start_recording ''out.mp4'' (init True))"
  let ?evs = "[Set_scale Half, Tick (screenshot 1) True, Set_scale Original,
    Tick (screenshot 2) True]"
  let ?c = "\<lparr>rows = 1080, cols = 1920, chans = 3, buf = Bgra2bgr (Grabbed 0)\<rparr>"
  have a: "recording ?st" by (rule started_example)
  have b: "writer ?st = None" and sc: "scale_box ?st = Original" and s: "screen ?st"
    and p: "target_path ?st = Some ''out.mp4''" and f: "fps_box ?st = 20"
    using started_fields by blast+
  have c: "list_all in_session ?evs" by simp
  have d: "frame_bgr_of (scale_box ?st) (screenshot 0) = Inr ?c"
    by (simp add: sc screenshot_original)
  have sfx: "lower (suffix ''out.mp4'') = ''.mp4''" by code_simp
  have h: "screen ?st \<and> True \<and> target_path ?st = Some ''out.mp4'' \<and>
      frame_bgr_of (scale_box ?st) (screenshot 0) = Inr ?c"
    using s p d by blast
  from mp [OF conjunct2 [OF session_geometry_fixed [OF a b c,
          of "screenshot 0" True "''out.mp4''" ?c]] h]
  have "written (effects (run (Tick (screenshot 0) True # ?evs) ?st)) =
     [(\<lparr>vw_path = ''out.mp4'', vw_fourcc = 1983148141, vw_fps = 20, vw_size = (1920, 1080)\<rparr>,
       \<lparr>rows = 1080, cols = 1920, chans = 3, buf = Bgra2bgr (Grabbed 0)\<rparr>),
      (\<lparr>vw_path = ''out.mp4'', vw_fourcc = 1983148141, vw_fps = 20, vw_size = (1920, 1080)\<rparr>,
       \<lparr>rows = 1080, cols = 1920, chans = 3,
        buf = Resampled INTER_AREA 1920 1080
                (Bgra2bgr (Resampled INTER_AREA 960 540 (Grabbed 1)))\<rparr>),
      (\<lparr>vw_path = ''out.mp4'', vw_fourcc = 1983148141, vw_fps = 20, vw_size = (1920, 1080)\<rparr>,
       \<lparr>rows = 1080, cols = 1920, chans = 3, buf = Bgra2bgr (Grabbed 2)\<rparr>)]"
    by (simp add: sc f sfx screenshot_original screenshot_half fit_to_def resampled_def)
  with a b c s p d show ?thesis by blast
qed

lemma written_map:
  "written (map (\<lambda>i. Written w (f i)) js) = map (\<lambda>i. (w, f i)) js"
  by (induction js) simp_all

lemma constructed_map:
  "constructed (map (\<lambda>i. Written w (f i)) js) = []"
  by (induction js) simp_all

lemma run_ticks_fixed:
  assumes "screen st" "recording st" "writer st = Some w" "target_size st = Some g"
    "1 \<le> fst g" "1 \<le> snd g" "scale_box st = m"
    "\<And>i. frame_bgr_of m (shot i) = Inr (f i)"
  shows "raised (run (map (\<lambda>i. Tick (shot i) b) js) st) = None \<and>
         effects (run (map (\<lambda>i. Tick (shot i) b) js) st) =
           map (\<lambda>i. Written w (fit_to g (f i))) js"
  using assms(1-7)
proof (induction js arbitrary: st)
  case Nil
  then show ?case by simp
next
  case (Cons j js)
  note t = on_tick_fixed [OF Cons.prems(1-6), of "shot j" b]
  let ?st' = "final (on_tick (shot j) b st)"
  have fr: "frame_bgr_of (scale_box st) (shot j) = Inr (f j)"
    using Cons.prems(7) assms(8) by simp
  have "screen ?st'" "recording ?st'" "writer ?st' = Some w" "target_size ?st' = Some g"
    "1 \<le> fst g" "1 \<le> snd g" "scale_box ?st' = m"
    using t fr Cons.prems by simp_all
  from Cons.IH [OF this] t fr show ?case
    by (simp add: handle_def Let_def)
qed

lemma sizes_const:
  "map (\<lambda>(w, f). (vw_size w, cols f, rows f, chans f))
     (map (\<lambda>i. (wr, \<lparr>rows = 540, cols = 960, chans = 3, buf = bf i\<rparr>)) js) =
   replicate (length js) (vw_size wr, 960, 540, 3)"
  by (induction js) simp_all

lemma scenario_ticks:
  assumes "screen st" "recording st" "writer st = None" "target_path st = Some ''out.mp4''"
    "fps_box st = 20" "scale_box st = Half"
  shows "raised (run (map (\<lambda>i. Tick (screenshot i) True) [0..<40]) st) = None \<and>
     constructed (effects (run (map (\<lambda>i. Tick (screenshot i) True) [0..<40]) st)) =
       [(\<lparr>vw_path = ''out.mp4'', vw_fourcc = 1983148141, vw_fps = 20, vw_size = (960, 540)\<rparr>,
         True)] \<and>
     map (\<lambda>(w, f). (vw_size w, cols f, rows f, chans f))
       (written (effects (run (map (\<lambda>i. Tick (screenshot i) True) [0..<40]) st))) =
       replicate 40 ((960, 540), 960, 540, 3)"
proof -
  let ?wr = "\<lparr>vw_path = ''out.mp4'', vw_fourcc = 1983148141, vw_fps = 20, vw_size = (960, 540)\<rparr>"
  let ?f = "\<lambda>i. \<lparr>rows = 540, cols = 960, chans = 3,
          buf = Bgra2bgr (Resampled INTER_AREA 960 540 (Grabbed i))\<rparr>"
  define st1 where "st1 = final (on_tick (screenshot 0) True st)"
  define rest where "rest = map (\<lambda>i. Tick (screenshot i) True) [1..<40]"
  have sfx: "lower (suffix ''out.mp4'') = ''.mp4''" by code_simp
  have c0: "frame_bgr_of (scale_box st) (screenshot 0) = Inr (?f 0)"
    by (simp add: assms(6) screenshot_half)
  note t = on_tick_first [OF assms(1-4) c0]
  have st1: "screen st1" "recording st1" "writer st1 = Some ?wr"
    "target_size st1 = Some (960, 540)" "1 \<le> fst (960::int, 540::int)"
    "1 \<le> snd (960::int, 540::int)" "scale_box st1 = Half"
    unfolding st1_def using t assms sfx by simp_all
  have fit: "fit_to (960, 540) (?f i) = ?f i" for i
    by (simp add: fit_to_def)
  have r: "raised (run rest st1) = None \<and>
      effects (run rest st1) = map (\<lambda>i. Written ?wr (?f i)) [1..<40]"
    unfolding rest_def
    using run_ticks_fixed [OF st1, of screenshot ?f True "[1..<40]"]
    by (simp only: fit screenshot_half) 
  have split: "map (\<lambda>i. Tick (screenshot i) True) [0..<40] = Tick (screenshot 0) True # rest"
    unfolding rest_def by (simp add: upt_conv_Cons)
  have h0: "handle (Tick (screenshot 0) True) st =
      \<lparr>raised = None, effects = [Constructed ?wr True, Written ?wr (?f 0)], final = st1\<rparr>"
    unfolding st1_def using t assms sfx by (simp add: handle_def)
  have eff: "raised (run (Tick (screenshot 0) True # rest) st) = None \<and>
      effects (run (Tick (screenshot 0) True # rest) st) =
      Constructed ?wr True # Written ?wr (?f 0) # map (\<lambda>i. Written ?wr (?f i)) [1..<40]"
    using r by (simp add: h0 Let_def)
  have "map (\<lambda>(w, f). (vw_size w, cols f, rows f, chans f))
      (map (\<lambda>i. (?wr, ?f i)) [1..<40]) = replicate 39 ((960, 540), 960, 540, 3)"
    using sizes_const [of ?wr _ "[1..<40]"] by simp
  moreover have "replicate 40 k = k # replicate 39 k" for k :: "(int \<times> int) \<times> int \<times> int \<times> int"
    using replicate_Suc [of 39 k] by simp
  moreover have "written (Constructed ?wr True # Written ?wr (?f 0) #
      map (\<lambda>i. Written ?wr (?f i)) [1..<40]) = (?wr, ?f 0) # map (\<lambda>i. (?wr, ?f i)) [1..<40]"
    by (simp only: written.simps written_map)
  moreover have "(\<lambda>(w, f). (vw_size w, cols f, rows f, chans f)) (?wr, ?f 0) =
      ((960, 540), 960, 540, 3)"
    by simp
  ultimately have sizes: "map (\<lambda>(w, f). (vw_size w, cols f, rows f, chans f))
      (written (Constructed ?wr True # Written ?wr (?f 0) # map (\<lambda>i. Written ?wr (?f i)) [1..<40])) =
      replicate 40 ((960, 540), 960, 540, 3)"
    by (simp only: list.map)
  have cons: "constructed
      (Constructed ?wr True # Written ?wr (?f 0) # map (\<lambda>i. Written ?wr (?f i)) [1..<40]) =
      [(?wr, True)]"
    by (simp add: constructed_map)
  from eff have e1: "raised (run (Tick (screenshot 0) True # rest) st) = None"
    and e2: "effects (run (Tick (screenshot 0) True # rest) st) =
      Constructed ?wr True # Written ?wr (?f 0) # map (\<lambda>i. Written ?wr (?f i)) [1..<40]"
    by (rule conjunct1, rule conjunct2)
  show ?thesis unfolding split e2 by (intro conjI e1 cons sizes)
qed

text \<open>
  C3. In a session that starts with no writer and runs without an exception, the
  first tick constructs the encoder and writes the first frame to it, and no other
  encoder is constructed: the run's effects begin with that construction, with the
  session's path, the value of the fps box and the size of the first converted frame.
  In the scenario (fps 20, scale 1/2, \<open>out.mp4\<close>, 40 ticks of 1920 by 1080) the timer
  interval is 50, one encoder is constructed, with (960, 540) and fps 20, and 40
  frames are written to it, each 960 by 540 with three channels.
\<close>

theorem encoder_opened_once:
  "(screen st \<and> recording st \<and> writer st = None \<and> target_path st = Some p \<and>
    list_all in_session evs \<and> raised (run (Tick pix b # evs) st) = None \<longrightarrow>
      (\<exists>wr c. frame_bgr_of (scale_box st) pix = Inr c \<and>
            constructed (effects (run (Tick pix b # evs) st)) = [(wr, True)] \<and>
            take 2 (effects (run (Tick pix b # evs) st)) =
              [Constructed wr True, Written wr c] \<and>
            vw_path wr = p \<and> vw_fps wr = fps_box st \<and>
            vw_size wr = (cols c, rows c))) \<and>
   fps_box (final (run [Set_scale Half, Start ''out.mp4''] (init True))) = 20 \<and>
   timer (final (run [Set_scale Half, Start ''out.mp4''] (init True))) = Some 50 \<and>
   raised (run (map (\<lambda>i. Tick (screenshot i) True) [0..<40])
     (final (run [Set_scale Half, Start ''out.mp4''] (init True)))) = None \<and>
   constructed (effects (run (map (\<lambda>i. Tick (screenshot i) True) [0..<40])
     (final (run [Set_scale Half, Start ''out.mp4''] (init True))))) =
     [(\<lparr>vw_path = ''out.mp4'', vw_fourcc = 1983148141, vw_fps = 20, vw_size = (960, 540)\<rparr>,
       True)] \<and>
   map (\<lambda>(w, f). (vw_size w, cols f, rows f, chans f))
     (written (effects (run (map (\<lambda>i. Tick (screenshot i) True) [0..<40])
       (final (run [Set_scale Half, Start ''out.mp4''] (init True)))))) =
     replicate 40 ((960, 540), 960, 540, 3)"
proof -
  let ?st = "final (run [Set_scale Half, Start ''out.mp4''] (init True))"
  have general: "\<exists>wr c. frame_bgr_of (scale_box st) pix = Inr c \<and>
            constructed (effects (run (Tick pix b # evs) st)) = [(wr, True)] \<and>
            take 2 (effects (run (Tick pix b # evs) st)) =
              [Constructed wr True, Written wr c] \<and>
            vw_path wr = p \<and> vw_fps wr = fps_box st \<and>
            vw_size wr = (cols c, rows c)"
    if h: "screen st" "recording st" "writer st = None" "target_path st = Some p"
      "list_all in_session evs" "raised (run (Tick pix b # evs) st) = None"
  proof -
    have ok: "\<not> (target_path st = None \<or> \<not> b \<or>
        (\<exists>e. frame_bgr_of (scale_box st) pix = Inl e))"
    proof
      assume "target_path st = None \<or> \<not> b \<or> (\<exists>e. frame_bgr_of (scale_box st) pix = Inl e)"
      from on_tick_first_fails [OF h(1-3) this] h(6) show False
        by (auto simp add: handle_def)
    qed
    then have b: "b" by simp
    from ok obtain c where c: "frame_bgr_of (scale_box st) pix = Inr c"
      by (cases "frame_bgr_of (scale_box st) pix") auto
    from first_tick_run [OF h(1-4) c h(5)] b c show ?thesis by simp
  qed
  have st: "screen ?st" "recording ?st" "writer ?st = None" "target_path ?st = Some ''out.mp4''"
    "fps_box ?st = 20" "scale_box ?st = Half" "timer ?st = Some 50"
    unfolding scenario_start by (simp_all add: init_def)
  note sc = scenario_ticks [OF st(1-6)]
  show ?thesis
  proof (intro conjI impI)
    assume "screen st \<and> recording st \<and> writer st = None \<and> target_path st = Some p \<and>
      list_all in_session evs \<and> raised (run (Tick pix b # evs) st) = None"
    then show "\<exists>wr c. frame_bgr_of (scale_box st) pix = Inr c \<and>
            constructed (effects (run (Tick pix b # evs) st)) = [(wr, True)] \<and>
            take 2 (effects (run (Tick pix b # evs) st)) =
              [Constructed wr True, Written wr c] \<and>
            vw_path wr = p \<and> vw_fps wr = fps_box st \<and>
            vw_size wr = (cols c, rows c)"
      by (intro general) simp_all
  qed (use st(5,7) sc in \<open>simp_all only:\<close>)
qed

theorem encoder_opened_once_witness:
  "screen (final (start_recording ''out.mp4'' (init True))) \<and>
   recording (final (start_recording ''out.mp4'' (init True))) \<and>
   writer (final (start_recording ''out.mp4'' (init True))) = None \<and>
   target_path (final (start_recording ''out.mp4'' (init True))) = Some ''out.mp4'' \<and>
   list_all in_session [Tick (screenshot 1) True] \<and>
   raised (run (Tick (screenshot 0) True # [Tick (screenshot 1) True])
     (final (start_recording ''out.mp4'' (init True)))) = None \<and>
   (\<exists>wr. constructed (effects (run (Tick (screenshot 0) True # [Tick (screenshot 1) True])
            (final (start_recording ''out.mp4'' (init True))))) = [(wr, True)] \<and>
         vw_path wr = ''out.mp4'' \<and> vw_fps wr = 20 \<and> vw_size wr = (1920, 1080))"
proof -
  let ?st = "final (start_recording ''out.mp4'' (init True))"
  let ?evs = "[Tick (screenshot 1) True]"
  have a: "screen ?st" and b: "writer ?st = None" and c: "target_path ?st = Some ''out.mp4''"
    and f: "fps_box ?st = 20" and sc: "scale_box ?st = Original"
    using started_fields by blast+
  have d: "list_all in_session ?evs" by simp
  have e: "raised (run (Tick (screenshot 0) True # ?evs) ?st) = None" by code_simp
  have h: "screen ?st \<and> recording ?st \<and> writer ?st = None \<and>
      target_path ?st = Some ''out.mp4'' \<and> list_all in_session ?evs \<and>
      raised (run (Tick (screenshot 0) True # ?evs) ?st) = None"
    using a started_example b c d e by blast
  from mp [OF conjunct1 [OF encoder_opened_once
        [of ?st "''out.mp4''" ?evs "screenshot 0" True]] h]
  have "\<exists>wr. constructed (effects (run (Tick (screenshot 0) True # ?evs) ?st)) = [(wr, True)] \<and>
         vw_path wr = ''out.mp4'' \<and> vw_fps wr = 20 \<and> vw_size wr = (1920, 1080)"
    unfolding f sc screenshot_original by auto
  with h show ?thesis by blast
qed

text \<open>
  Closing the window after the first recorded tick releases the encoder that tick
  opened, although the release raises, and then tears the window down.
\<close>

theorem close_while_recording_stops_witness:
  "recording (final (on_tick (screenshot 0) True (final (start_recording ''out.mp4'' (init True))))) \<and>
   writer (final (on_tick (screenshot 0) True (final (start_recording ''out.mp4'' (init True))))) =
     Some \<lparr>vw_path = ''out.mp4'', vw_fourcc = 1983148141, vw_fps = 20, vw_size = (1920, 1080)\<rparr> \<and>
   raised (closeEvent True
     (final (on_tick (screenshot 0) True (final (start_recording ''out.mp4'' (init True)))))) =
     None \<and>
   effects (closeEvent True
     (final (on_tick (screenshot 0) True (final (start_recording ''out.mp4'' (init True)))))) =
     [Released \<lparr>vw_path = ''out.mp4'', vw_fourcc = 1983148141, vw_fps = 20,
                vw_size = (1920, 1080)\<rparr>, Teardown] \<and>
   recording (final (closeEvent True
     (final (on_tick (screenshot 0) True (final (start_recording ''out.mp4'' (init True))))))) =
     False \<and>
   timer (final (closeEvent True
     (final (on_tick (screenshot 0) True (final (start_recording ''out.mp4'' (init True))))))) =
     None \<and>
   writer (final (closeEvent True
     (final (on_tick (screenshot 0) True (final (start_recording ''out.mp4'' (init True))))))) =
     None"
proof -
  let ?st = "final (start_recording ''out.mp4'' (init True))"
  define st1 where "st1 = final (on_tick (screenshot 0) True ?st)"
  let ?wr = "\<lparr>vw_path = ''out.mp4'', vw_fourcc = 1983148141, vw_fps = 20,
      vw_size = (1920::int, 1080::int)\<rparr>"
  have a: "screen ?st" and b: "writer ?st = None" and c: "target_path ?st = Some ''out.mp4''"
    and f: "fps_box ?st = 20" and sc: "scale_box ?st = Original"
    using started_fields by blast+
  have sfx: "lower (suffix ''out.mp4'') = ''.mp4''" by code_simp
  have fr: "frame_bgr_of (scale_box ?st) (screenshot 0) =
      Inr \<lparr>rows = 1080, cols = 1920, chans = 3, buf = Bgra2bgr (Grabbed 0)\<rparr>"
    by (simp add: sc screenshot_original)
  note t = on_tick_first [OF a started_example b c fr]
  have r: "recording st1" and w: "writer st1 = Some ?wr"
    unfolding st1_def using t started_example by (simp_all add: f sfx)
  from close_while_recording_stops [OF r, of True] w
  have "raised (closeEvent True st1) = None \<and>
    effects (closeEvent True st1) = [Released ?wr, Teardown] \<and>
    recording (final (closeEvent True st1)) = False \<and>
    timer (final (closeEvent True st1)) = None \<and>
    writer (final (closeEvent True st1)) = None"
    by simp
  with r w show ?thesis unfolding st1_def by blast
qed

end
